theory Spec2Isabelle
  imports Complex_Main "HOL-Library.Multiset"
begin

section \<open>Python values and faults\<close>

text \<open>
  The module \<^verbatim>\<open>slab/psychoacoustics.py\<close> holds two iterator classes, \<^verbatim>\<open>Trialsequence\<close> and
  \<^verbatim>\<open>Staircase\<close>. Both are objects mutated in place, and a Python exception leaves the
  object as it was at the raise. Every method is therefore a function from the object's
  state to a pair: what the call did (a returned value, or the exception raised) and the
  state it left behind.

  Python floats are idealised as real numbers: rounding, overflow and underflow are not
  part of the model. Python integers are \<^typ>\<open>int\<close>.
\<close>

datatype error = IndexError | TypeError | ZeroDivisionError | StopIteration

text \<open>
  Subscription \<^verbatim>\<open>xs[i]\<close>: positions \<open>0\<close> to \<open>len - 1\<close> are read directly, positions
  \<open>-len\<close> to \<open>-1\<close> are read from the end, and any other position raises.
\<close>

definition py_index :: "'a list \<Rightarrow> int \<Rightarrow> error + 'a" where
  "py_index xs i =
     (if 0 \<le> i \<and> i < int (length xs) then Inr (xs ! nat i)
      else if i < 0 \<and> - int (length xs) \<le> i then Inr (xs ! nat (int (length xs) + i))
      else Inl IndexError)"

text \<open>Python's \<^verbatim>\<open>xs[k:]\<close>: the start is clipped into the list, a negative one counts from the end.\<close>

definition py_slice_from :: "int \<Rightarrow> 'a list \<Rightarrow> 'a list" where
  "py_slice_from k xs =
     (let n = int (length xs); start = (if k < 0 then max 0 (n + k) else min k n)
      in drop (nat start) xs)"

text \<open>Python's \<^verbatim>\<open>xs[:k]\<close>: a negative stop counts from the end.\<close>

definition py_slice_to :: "int \<Rightarrow> 'a list \<Rightarrow> 'a list" where
  "py_slice_to k xs =
     (let n = int (length xs); stop = (if k < 0 then max 0 (n + k) else min k n)
      in take (nat stop) xs)"

section \<open>Staircase\<close>

text \<open>
  The attributes of a \<^verbatim>\<open>Staircase\<close> object. \<^verbatim>\<open>_variable_step\<close> and \<^verbatim>\<open>_next_intensity\<close> lose
  their leading underscore. The three \<^verbatim>\<open>pf_*\<close> attributes are left out: only
  \<^verbatim>\<open>_psychometric_function\<close> writes them, and no method modelled here reads them.
\<close>

record staircase =
  name :: string
  start_val :: real
  n_up :: int
  n_down :: int
  step_type :: string
  step_sizes :: "real list"
  variable_step :: bool
  step_size_current :: real
  n_reversals :: int
  n_trials :: int
  finished :: bool
  this_trial_n :: int
  data :: "bool list"
  intensities :: "real list"
  reversal_points :: "int list"
  reversal_intensities :: "real list"
  current_direction :: string
  correct_counter :: int
  next_intensity :: real
  min_val :: "real option"
  max_val :: "real option"

text \<open>
  The \<^verbatim>\<open>step_sizes\<close> argument of the constructor: \<^verbatim>\<open>list(step_sizes)\<close> succeeds on a list
  and raises \<^verbatim>\<open>TypeError\<close> on a number, which is then wrapped into a one-element list.
\<close>

datatype step_sizes_arg = Single real | Several "real list"

text \<open>
  \<^verbatim>\<open>Staircase.__init__\<close>. \<^verbatim>\<open>self.step_sizes[0]\<close> raises on an empty list, before the object
  is complete.
\<close>

definition Staircase_init ::
  "real \<Rightarrow> int option \<Rightarrow> step_sizes_arg \<Rightarrow> int \<Rightarrow> int \<Rightarrow> int \<Rightarrow> string \<Rightarrow>
   real option \<Rightarrow> real option \<Rightarrow> string \<Rightarrow> error + staircase" where
  "Staircase_init start_val' n_reversals' step_sizes' n_trials' n_up' n_down' step_type'
     min_val' max_val' name' =
     (let sizes = (case step_sizes' of Single x \<Rightarrow> [x] | Several xs \<Rightarrow> xs)
      in case sizes of
           [] \<Rightarrow> Inl IndexError
         | first # _ \<Rightarrow>
             Inr \<lparr> name = name',
                   start_val = start_val',
                   n_up = n_up',
                   n_down = n_down',
                   step_type = step_type',
                   step_sizes = sizes,
                   variable_step = (length sizes > 1),
                   step_size_current = first,
                   n_reversals =
                     (case n_reversals' of
                        None \<Rightarrow> int (length sizes)
                      | Some r \<Rightarrow> if int (length sizes) > r then int (length sizes) else r),
                   n_trials = n_trials',
                   finished = False,
                   this_trial_n = - 1,
                   data = [],
                   intensities = [],
                   reversal_points = [],
                   reversal_intensities = [],
                   current_direction = ''down'',
                   correct_counter = 0,
                   next_intensity = start_val',
                   min_val = min_val',
                   max_val = max_val' \<rparr>)"

text \<open>
  \<^verbatim>\<open>Staircase.__next__\<close>: while the staircase is not finished, the pull appends the next
  intensity to the history and returns it; afterwards it raises \<^verbatim>\<open>StopIteration\<close>.
\<close>

definition Staircase_next :: "staircase \<Rightarrow> (error + real) \<times> staircase" where
  "Staircase_next s =
     (if \<not> finished s
      then (Inr (next_intensity s),
            s\<lparr>this_trial_n := this_trial_n s + 1,
              intensities := intensities s @ [next_intensity s]\<rparr>)
      else (Inl StopIteration, s))"

text \<open>
  \<^verbatim>\<open>Staircase._intensity_inc\<close>: an \<^verbatim>\<open>if/elif/elif\<close> chain on the step type, then the clamp to
  \<^verbatim>\<open>max_val\<close>, then the counter reset.
\<close>

definition intensity_inc :: "staircase \<Rightarrow> staircase" where
  "intensity_inc s =
     (let x = (if step_type s = ''db'' then next_intensity s * 10 powr (step_size_current s / 20)
               else if step_type s = ''log'' then next_intensity s * 10 powr step_size_current s
               else if step_type s = ''lin'' then next_intensity s + step_size_current s
               else next_intensity s);
          y = (case max_val s of
                 Some m \<Rightarrow> if x > m then m else x
               | None \<Rightarrow> x)
      in s\<lparr>next_intensity := y, correct_counter := 0\<rparr>)"

text \<open>
  \<^verbatim>\<open>Staircase._intensity_dec\<close>: the test for \<^verbatim>\<open>'db'\<close> is an \<^verbatim>\<open>if\<close> of its own, followed by
  an \<^verbatim>\<open>if/elif\<close> on \<^verbatim>\<open>'log'\<close> and \<^verbatim>\<open>'lin'\<close>; then the counter reset and the clamp to
  \<^verbatim>\<open>min_val\<close>.
\<close>

definition intensity_dec :: "staircase \<Rightarrow> staircase" where
  "intensity_dec s =
     (let x = (if step_type s = ''db'' then next_intensity s / 10 powr (step_size_current s / 20)
               else next_intensity s);
          y = (if step_type s = ''log'' then x / 10 powr step_size_current s
               else if step_type s = ''lin'' then x - step_size_current s
               else x);
          z = (case min_val s of
                 Some m \<Rightarrow> if y < m then m else y
               | None \<Rightarrow> y)
      in s\<lparr>correct_counter := 0, next_intensity := z\<rparr>)"

text \<open>
  \<^verbatim>\<open>Staircase.calculatenext_intensity\<close>, in the order of its statements. The first block
  decides whether this response is a reversal and sets the direction; it reads
  \<^verbatim>\<open>self.data[-1]\<close> only while no reversal is recorded.
\<close>

definition decide_reversal :: "staircase \<Rightarrow> error + bool \<times> staircase" where
  "decide_reversal s =
     (if reversal_intensities s = [] then
        (if data s = [] then Inl IndexError
         else if last (data s)
           then Inr (current_direction s = ''up'', s\<lparr>current_direction := ''down''\<rparr>)
           else Inr (current_direction s = ''down'', s\<lparr>current_direction := ''up''\<rparr>))
      else if correct_counter s \<ge> n_down s
        then Inr (current_direction s \<noteq> ''down'', s\<lparr>current_direction := ''down''\<rparr>)
      else if correct_counter s \<le> - n_up s
        then Inr (current_direction s \<noteq> ''up'', s\<lparr>current_direction := ''up''\<rparr>)
      else Inr (False, s))"

text \<open>
  The second block records a reversal: the trial number first, then
  \<^verbatim>\<open>self.intensities[-1]\<close>, which raises on an empty history after the trial number has
  been appended.
\<close>

definition record_reversal :: "bool \<Rightarrow> staircase \<Rightarrow> error + staircase" where
  "record_reversal reversal s =
     (if reversal then
        (let s1 = s\<lparr>reversal_points := reversal_points s @ [this_trial_n s]\<rparr>
         in if intensities s1 = [] then Inl IndexError
            else Inr (s1\<lparr>reversal_intensities :=
                           reversal_intensities s1 @ [last (intensities s1)]\<rparr>))
      else Inr s)"

text \<open>
  When \<^verbatim>\<open>record_reversal\<close> raises, the object keeps the appended trial number; this is the
  state the exception leaves.
\<close>

definition record_reversal_raised :: "staircase \<Rightarrow> staircase" where
  "record_reversal_raised s = s\<lparr>reversal_points := reversal_points s @ [this_trial_n s]\<rparr>"

text \<open>The third block is the stopping rule; nothing ever clears the flag.\<close>

definition check_finished :: "staircase \<Rightarrow> staircase" where
  "check_finished s =
     (if int (length (reversal_intensities s)) \<ge> n_reversals s
         \<and> int (length (intensities s)) \<ge> n_trials s
      then s\<lparr>finished := True\<rparr> else s)"

text \<open>The fourth block moves to the next step size after a reversal.\<close>

definition new_step_size :: "bool \<Rightarrow> staircase \<Rightarrow> error + staircase" where
  "new_step_size reversal s =
     (if reversal \<and> variable_step s then
        (if length (reversal_intensities s) \<ge> length (step_sizes s) then
           (if step_sizes s = [] then Inl IndexError
            else Inr (s\<lparr>step_size_current := last (step_sizes s)\<rparr>))
         else Inr (s\<lparr>step_size_current := step_sizes s ! length (reversal_intensities s)\<rparr>))
      else Inr s)"

text \<open>The last block changes the intensity.\<close>

definition change_intensity :: "staircase \<Rightarrow> error + staircase" where
  "change_intensity s =
     (if reversal_intensities s = [] then
        (if data s = [] then Inl IndexError
         else if last (data s) then Inr (intensity_dec s) else Inr (intensity_inc s))
      else if correct_counter s \<ge> n_down s then Inr (intensity_dec s)
      else if correct_counter s \<le> - n_up s then Inr (intensity_inc s)
      else Inr s)"

definition calculatenext_intensity :: "staircase \<Rightarrow> (error + unit) \<times> staircase" where
  "calculatenext_intensity s =
     (case decide_reversal s of
        Inl e \<Rightarrow> (Inl e, s)
      | Inr (reversal, s1) \<Rightarrow>
          (case record_reversal reversal s1 of
             Inl e \<Rightarrow> (Inl e, record_reversal_raised s1)
           | Inr s2 \<Rightarrow>
               (let s3 = check_finished s2
                in case new_step_size reversal s3 of
                     Inl e \<Rightarrow> (Inl e, s3)
                   | Inr s4 \<Rightarrow>
                       (case change_intensity s4 of
                          Inl e \<Rightarrow> (Inl e, s4)
                        | Inr s5 \<Rightarrow> (Inr (), s5)))))"

text \<open>
  \<^verbatim>\<open>Staircase.add_response\<close>. The response is appended first; an override intensity
  replaces the last entry of the history (\<^verbatim>\<open>pop\<close> raises on an empty one); the streak
  counter compares the new response with \<^verbatim>\<open>self.data[-2]\<close>.
\<close>

definition streak :: "bool \<Rightarrow> staircase \<Rightarrow> staircase" where
  "streak result s =
     (if result then
        (if length (data s) > 1 \<and> data s ! (length (data s) - 2) = result
         then s\<lparr>correct_counter := correct_counter s + 1\<rparr>
         else s\<lparr>correct_counter := 1\<rparr>)
      else
        (if length (data s) > 1 \<and> data s ! (length (data s) - 2) = result
         then s\<lparr>correct_counter := correct_counter s - 1\<rparr>
         else s\<lparr>correct_counter := - 1\<rparr>))"

definition replace_intensity :: "real option \<Rightarrow> staircase \<Rightarrow> error + staircase" where
  "replace_intensity intensity s =
     (case intensity of
        None \<Rightarrow> Inr s
      | Some v \<Rightarrow>
          if intensities s = [] then Inl IndexError
          else Inr (s\<lparr>intensities := butlast (intensities s) @ [v]\<rparr>))"

definition add_response :: "bool \<Rightarrow> real option \<Rightarrow> staircase \<Rightarrow> (error + unit) \<times> staircase" where
  "add_response result intensity s =
     (let s1 = s\<lparr>data := data s @ [result]\<rparr>
      in case replace_intensity intensity s1 of
           Inl e \<Rightarrow> (Inl e, s1)
         | Inr s2 \<Rightarrow> calculatenext_intensity (streak result s2))"

text \<open>
  A run of a staircase is a sequence of calls by the experiment loop. A call that raises
  leaves its state behind, and the loop may go on with the object.
\<close>

datatype call = Next | Add_response bool "real option"

fun do_call :: "staircase \<Rightarrow> call \<Rightarrow> staircase" where
  "do_call s Next = snd (Staircase_next s)"
| "do_call s (Add_response result intensity) = snd (add_response result intensity s)"

definition run :: "staircase \<Rightarrow> call list \<Rightarrow> staircase" where
  "run s calls = foldl do_call s calls"

text \<open>
  \<^verbatim>\<open>Staircase.threshold\<close>. A numpy result is a number or \<^verbatim>\<open>nan\<close>: \<^verbatim>\<open>numpy.mean\<close> of an empty
  array is \<^verbatim>\<open>nan\<close>; \<^verbatim>\<open>numpy.log\<close> is \<^verbatim>\<open>nan\<close> on a negative number and \<^verbatim>\<open>-inf\<close> on zero, and
  the exponential of a mean that holds \<^verbatim>\<open>-inf\<close> and no \<^verbatim>\<open>nan\<close> is zero. The method falls off
  its end, returning \<^verbatim>\<open>None\<close>, while the staircase is not finished.
\<close>

datatype npfloat = Num real | NaN

definition np_mean :: "real list \<Rightarrow> npfloat" where
  "np_mean xs = (if xs = [] then NaN else Num (sum_list xs / real (length xs)))"

definition np_exp_mean_log :: "real list \<Rightarrow> npfloat" where
  "np_exp_mean_log xs =
     (if xs = [] \<or> (\<exists>x \<in> set xs. x < 0) then NaN
      else if 0 \<in> set xs then Num 0
      else Num (exp (sum_list (map ln xs) / real (length xs))))"

definition threshold :: "int \<Rightarrow> string \<Rightarrow> staircase \<Rightarrow> npfloat option" where
  "threshold n method s =
     (if finished s then
        (let n1 = (if n > n_reversals s then n_reversals s else n)
         in if method = ''geometric''
            then Some (np_exp_mean_log (py_slice_from (- n1) (reversal_intensities s)))
            else Some (np_mean (py_slice_from (- n1) (reversal_intensities s))))
      else None)"

text \<open>\<^verbatim>\<open>Staircase.simulate_response\<close>.\<close>

definition simulate_response :: "real \<Rightarrow> staircase \<Rightarrow> bool" where
  "simulate_response thresh s = (next_intensity s \<ge> thresh)"

subsection \<open>Notions used to state the properties of the staircase\<close>

text \<open>The stopping rule: enough reversals recorded and enough intensities presented.\<close>

definition stop_rule :: "staircase \<Rightarrow> bool" where
  "stop_rule s = (n_reversals s \<le> int (length (reversal_intensities s))
                  \<and> n_trials s \<le> int (length (intensities s)))"

text \<open>
  What the constructor establishes and every call keeps: there is a step size, the minimum
  reversal count is at least the number of step sizes, a recorded reversal has a presented
  intensity behind it, and a finished staircase has met the stopping rule.
\<close>

definition inv :: "staircase \<Rightarrow> bool" where
  "inv s = (step_sizes s \<noteq> [] \<and> int (length (step_sizes s)) \<le> n_reversals s
            \<and> (reversal_intensities s \<noteq> [] \<longrightarrow> intensities s \<noteq> [])
            \<and> (finished s \<longrightarrow> stop_rule s))"

text \<open>A value lies within the bounds the staircase is configured with.\<close>

definition within_bounds :: "staircase \<Rightarrow> real \<Rightarrow> bool" where
  "within_bounds s x =
     ((case min_val s of None \<Rightarrow> True | Some m \<Rightarrow> m \<le> x)
      \<and> (case max_val s of None \<Rightarrow> True | Some m \<Rightarrow> x \<le> m))"

text \<open>
  The configuration under which the bounds are kept: the next intensity is within bounds,
  no step size is negative, and the multiplicative step types work on a non-negative
  intensity.
\<close>

definition bounded :: "staircase \<Rightarrow> bool" where
  "bounded s =
     (within_bounds s (next_intensity s)
      \<and> 0 \<le> step_size_current s
      \<and> (\<forall>x \<in> set (step_sizes s). 0 \<le> x)
      \<and> (step_type s = ''db'' \<or> step_type s = ''log'' \<longrightarrow> 0 \<le> next_intensity s))"

text \<open>
  The value \<^verbatim>\<open>_intensity_inc\<close> reaches before its clamp, and the one \<^verbatim>\<open>_intensity_dec\<close>
  reaches before its clamp (the step type is one string, so at most one of its tests holds).
\<close>

definition raised :: "staircase \<Rightarrow> real" where
  "raised s = (if step_type s = ''db'' then next_intensity s * 10 powr (step_size_current s / 20)
               else if step_type s = ''log'' then next_intensity s * 10 powr step_size_current s
               else if step_type s = ''lin'' then next_intensity s + step_size_current s
               else next_intensity s)"

definition lowered :: "staircase \<Rightarrow> real" where
  "lowered s = (if step_type s = ''db'' then next_intensity s / 10 powr (step_size_current s / 20)
               else if step_type s = ''log'' then next_intensity s / 10 powr step_size_current s
               else if step_type s = ''lin'' then next_intensity s - step_size_current s
               else next_intensity s)"

text \<open>The last \<open>m\<close> entries of a list, or all of it when it has fewer.\<close>

definition last_n :: "nat \<Rightarrow> 'a list \<Rightarrow> 'a list" where
  "last_n m xs = drop (length xs - m) xs"

text \<open>
  The threshold as the specification words it: the last \<open>n\<close> recorded reversals are
  averaged, with \<open>n\<close> clamped down to the number of reversals recorded.
\<close>

definition threshold_spec :: "int \<Rightarrow> string \<Rightarrow> staircase \<Rightarrow> npfloat option" where
  "threshold_spec n method s =
     (if finished s then
        (let xs = last_n (nat (min n (int (length (reversal_intensities s)))))
                    (reversal_intensities s)
         in if method = ''geometric'' then Some (np_exp_mean_log xs) else Some (np_mean xs))
      else None)"

text \<open>The number of pulls in a run.\<close>

definition pulls :: "call list \<Rightarrow> nat" where
  "pulls calls = length (filter (\<lambda>c. c = Next) calls)"

text \<open>
  The loop of the doctest and of the module's demonstration: \<^verbatim>\<open>for trial in stairs:
  stairs.add_response(stairs.simulate_response(thresh))\<close>. The \<^verbatim>\<open>for\<close> statement pulls until
  \<^verbatim>\<open>StopIteration\<close>; \<open>fuel\<close> bounds the number of pulls.
\<close>

fun simulated_run :: "nat \<Rightarrow> real \<Rightarrow> staircase \<Rightarrow> staircase option" where
  "simulated_run 0 thresh s = None"
| "simulated_run (Suc fuel) thresh s =
     (case Staircase_next s of
        (Inl e, s1) \<Rightarrow> Some s1
      | (Inr trial, s1) \<Rightarrow>
          simulated_run fuel thresh (snd (add_response (simulate_response thresh s1) None s1)))"

subsection \<open>Staircases to evaluate on\<close>

text \<open>
  \<^verbatim>\<open>Staircase(start_val=10, step_sizes=1, n_trials=4, n_up=1, n_down=1, step_type='lin')\<close>,
  and the run in which the subject answers wrong, right, wrong before the fourth trial is
  pulled.
\<close>

definition example_stairs :: staircase where
  "example_stairs = projr (Staircase_init 10 None (Single 1) 4 1 1 ''lin'' None None [])"

definition example_calls :: "call list" where
  "example_calls = [Next, Add_response False None, Next, Add_response True None,
                    Next, Add_response False None, Next]"

text \<open>The example run completed by a right answer, which finishes the staircase.\<close>

definition example_finished :: staircase where
  "example_finished = run example_stairs (example_calls @ [Add_response True None])"

text \<open>
  \<^verbatim>\<open>Staircase(start_val=100, step_sizes=4, step_type='lin', max_val=60)\<close>: the start value
  lies above the upper bound.
\<close>

definition loud_stairs :: staircase where
  "loud_stairs = projr (Staircase_init 100 None (Single 4) 0 1 2 ''lin'' None (Some 60) [])"

text \<open>
  The staircase of the class's doctest: \<^verbatim>\<open>Staircase(start_val=50, n_reversals=10,
  step_type='lin', step_sizes=[4,2], min_val=10, max_val=60, n_up=1, n_down=1, n_trials=10)\<close>,
  and a run of six wrong answers.
\<close>

definition doctest_stairs :: staircase where
  "doctest_stairs =
     projr (Staircase_init 50 (Some 10) (Several [4, 2]) 10 1 1 ''lin'' (Some 10) (Some 60) [])"

definition six_wrong :: "call list" where
  "six_wrong = [Next, Add_response False None, Next, Add_response False None,
                Next, Add_response False None, Next, Add_response False None,
                Next, Add_response False None, Next, Add_response False None]"

section \<open>Trialsequence\<close>

text \<open>
  Python is dynamically typed: an entry of \<^verbatim>\<open>conditions\<close> or of \<^verbatim>\<open>trials\<close> is an integer or
  any other object (the docstring allows a list of dictionaries as conditions).
\<close>

datatype 'a pyval = PyInt int | PyObj 'a

text \<open>
  The \<^verbatim>\<open>conditions\<close> argument: an integer \<open>x\<close> stands for \<^verbatim>\<open>list(range(x))\<close>, a list is taken
  as it is. A string naming a file, from which the whole object is loaded, is outside the
  model.
\<close>

datatype 'a conditions_arg = Count int | Listed "'a pyval list"

text \<open>
  The attributes of a \<^verbatim>\<open>Trialsequence\<close> object. Four of them share their name with an
  attribute of \<^verbatim>\<open>Staircase\<close> and carry the suffix \<open>_ts\<close>. \<^verbatim>\<open>this_trial\<close> holds the
  placeholder \<^verbatim>\<open>[]\<close> (here \<open>None\<close>) or the current condition.
\<close>

record 'a trialsequence =
  name_ts :: string
  n_reps :: int
  conditions :: "'a pyval list"
  n_conds :: int
  this_rep_n :: int
  this_trial_n_ts :: int
  this_n :: int
  this_trial :: "'a pyval option"
  finished_ts :: bool
  trials :: "'a pyval list"
  n_trials_ts :: int
  n_remaining :: int

text \<open>
  \<^verbatim>\<open>numpy.random.shuffle\<close> rearranges a list in place. The random source is the list
  \<open>draws\<close> of the arrangements that the successive calls produce; in a run of the program
  every draw is a permutation of the list shuffled. A result \<open>None\<close> says that the draws
  ran out while the code was still asking for one: the \<^verbatim>\<open>while\<close> loop of
  \<^verbatim>\<open>_create_simple_sequence\<close> runs for as long as the shuffled list starts with the entry
  that \<^verbatim>\<open>trials\<close> ends with.

  \<^verbatim>\<open>permute\<close> is the very list \<^verbatim>\<open>self.conditions\<close> (no copy is made), so each shuffle
  rearranges the conditions of the object too, and \<^verbatim>\<open>trials\<close> is extended with the entries
  of that list.
\<close>

fun reshuffle :: "'v list \<Rightarrow> 'v list \<Rightarrow> 'v list list \<Rightarrow> (error + 'v list \<times> 'v list list) option" where
  "reshuffle trials' permute draws =
     (if trials' = [] \<or> permute = [] then Some (Inl IndexError)
      else if last trials' = hd permute then
        (case draws of
           [] \<Rightarrow> None
         | d # ds \<Rightarrow> reshuffle trials' d ds)
      else Some (Inr (permute, draws)))"

fun repetitions ::
  "nat \<Rightarrow> nat \<Rightarrow> 'v list \<Rightarrow> 'v list \<Rightarrow> 'v list list \<Rightarrow> (error + 'v list \<times> 'v list) option" where
  "repetitions rep 0 permute trials' draws = Some (Inr (permute, trials'))"
| "repetitions rep (Suc k) permute trials' [] = None"
| "repetitions rep (Suc k) permute trials' (d # ds) =
     (if rep = 0 then repetitions (Suc rep) k d (trials' @ d) ds
      else
        (case reshuffle trials' d ds of
           None \<Rightarrow> None
         | Some (Inl e) \<Rightarrow> Some (Inl e)
         | Some (Inr (p, ds')) \<Rightarrow> repetitions (Suc rep) k p (trials' @ p) ds'))"

text \<open>
  \<^verbatim>\<open>Trialsequence._create_simple_sequence\<close>: the loop over \<^verbatim>\<open>range(self.n_reps)\<close>, started
  at repetition 0. It returns the conditions as last shuffled and the extended trials.
\<close>

definition create_simple_sequence ::
  "'v list \<Rightarrow> int \<Rightarrow> 'v list \<Rightarrow> 'v list list \<Rightarrow> (error + 'v list \<times> 'v list) option" where
  "create_simple_sequence conditions' n_reps' trials' draws =
     repetitions 0 (nat n_reps') conditions' trials' draws"

text \<open>
  \<^verbatim>\<open>Trialsequence.__init__\<close>. The parameter \<open>trials'\<close> is the content of the list object
  bound to \<^verbatim>\<open>trials\<close>: the caller's list, or the one list that the default \<^verbatim>\<open>trials=[]\<close>
  denotes for every call. \<^verbatim>\<open>self.trials\<close> is that object, and
  \<^verbatim>\<open>_create_simple_sequence\<close> extends it in place, so a later call that leaves \<^verbatim>\<open>trials\<close>
  out receives the entries an earlier call generated.
\<close>

definition new_trialsequence ::
  "string \<Rightarrow> int \<Rightarrow> 'a pyval list \<Rightarrow> int \<Rightarrow> 'a pyval list \<Rightarrow> 'a trialsequence" where
  "new_trialsequence name' n_reps' conditions' n_conds' trials' =
     \<lparr> name_ts = name',
       n_reps = n_reps',
       conditions = conditions',
       n_conds = n_conds',
       this_rep_n = 0,
       this_trial_n_ts = - 1,
       this_n = - 1,
       this_trial = None,
       finished_ts = False,
       trials = trials',
       n_trials_ts = int (length trials'),
       n_remaining = int (length trials') \<rparr>"

definition conditions_of :: "'a conditions_arg \<Rightarrow> 'a pyval list" where
  "conditions_of c = (case c of Count x \<Rightarrow> map PyInt [0..x - 1] | Listed xs \<Rightarrow> xs)"

definition Trialsequence_init ::
  "'a conditions_arg \<Rightarrow> int \<Rightarrow> 'a pyval list \<Rightarrow> string \<Rightarrow> 'a pyval list list \<Rightarrow>
   (error + 'a trialsequence) option" where
  "Trialsequence_init conditions' n_reps' trials' name' draws =
     (let conds = conditions_of conditions'; n = int (length conds)
      in if trials' \<noteq> [] then Some (Inr (new_trialsequence name' n_reps' conds n trials'))
         else
           (case create_simple_sequence conds n_reps' trials' draws of
              None \<Rightarrow> None
            | Some (Inl e) \<Rightarrow> Some (Inl e)
            | Some (Inr (conds1, trials1)) \<Rightarrow>
                Some (Inr (new_trialsequence name' n_reps' conds1 n trials1))))"

text \<open>
  \<^verbatim>\<open>self.conditions[self.trials[k]]\<close>: the entry of \<^verbatim>\<open>trials\<close> must be an integer to
  subscript a list with.
\<close>

definition condition_at :: "'a trialsequence \<Rightarrow> int \<Rightarrow> error + 'a pyval" where
  "condition_at s k =
     (case py_index (trials s) k of
        Inl e \<Rightarrow> Inl e
      | Inr (PyInt i) \<Rightarrow> py_index (conditions s) i
      | Inr (PyObj x) \<Rightarrow> Inl TypeError)"

text \<open>\<^verbatim>\<open>Trialsequence.__next__\<close>.\<close>

definition Trialsequence_next :: "'a trialsequence \<Rightarrow> (error + 'a pyval) \<times> 'a trialsequence" where
  "Trialsequence_next s =
     (let s1 = s\<lparr>this_trial_n_ts := this_trial_n_ts s + 1,
                 this_n := this_n s + 1,
                 n_remaining := n_remaining s - 1\<rparr>;
          s2 = (if this_trial_n_ts s1 \<ge> n_conds s1 \<and> n_reps s1 > 1
                then s1\<lparr>this_trial_n_ts := 0, this_rep_n := this_rep_n s1 + 1\<rparr>
                else s1);
          s3 = (if this_n s2 \<ge> int (length (trials s2))
                then s2\<lparr>this_trial := None, finished_ts := True\<rparr>
                else s2)
      in if finished_ts s3 then (Inl StopIteration, s3)
         else
           (case condition_at s3 (this_n s3) of
              Inl e \<Rightarrow> (Inl e, s3)
            | Inr c \<Rightarrow> (Inr c, s3\<lparr>this_trial := Some c\<rparr>)))"

text \<open>
  \<^verbatim>\<open>Trialsequence.get_future_trial\<close>. The method assigns to nothing; the state is returned
  beside the value so that this can be said.
\<close>

definition get_future_trial ::
  "int \<Rightarrow> 'a trialsequence \<Rightarrow> (error + 'a pyval option) \<times> 'a trialsequence" where
  "get_future_trial n s =
     (if n > n_remaining s \<or> this_n s + n < 0 then (Inr None, s)
      else
        (case py_index (trials s) (this_n s + n) of
           Inl e \<Rightarrow> (Inl e, s)
         | Inr t \<Rightarrow> (Inr (Some t), s)))"

text \<open>
  \<^verbatim>\<open>Trialsequence.mmn_sequence\<close>. \<open>idx_shuffled\<close> is the arrangement of \<^verbatim>\<open>idx\<close> after
  \<^verbatim>\<open>numpy.random.shuffle(idx)\<close>, a permutation of \<open>mmn_idx\<close>. Python raises
  \<^verbatim>\<open>ZeroDivisionError\<close> on a float or integer division by zero.
\<close>

definition mmn_n_partials :: "real \<Rightarrow> int" where
  "mmn_n_partials deviant_freq = \<lceil>2 / deviant_freq - 7\<rceil>"

definition mmn_reps :: "int \<Rightarrow> real \<Rightarrow> int" where
  "mmn_reps n_trials' deviant_freq = \<lceil>real_of_int n_trials' / real_of_int (mmn_n_partials deviant_freq)\<rceil>"

definition mmn_partials :: "real \<Rightarrow> 'a pyval list list" where
  "mmn_partials deviant_freq =
     map (\<lambda>i. replicate (3 + i) (PyInt 0) @ [PyInt 1]) [0..<nat (mmn_n_partials deviant_freq)]"

definition mmn_idx :: "int \<Rightarrow> real \<Rightarrow> nat list" where
  "mmn_idx n_trials' deviant_freq =
     concat (replicate (nat (mmn_reps n_trials' deviant_freq))
               [0..<nat (mmn_n_partials deviant_freq)])"

definition mmn_sequence ::
  "int \<Rightarrow> real \<Rightarrow> nat list \<Rightarrow> 'a pyval list list \<Rightarrow> (error + 'a trialsequence) option" where
  "mmn_sequence n_trials' deviant_freq idx_shuffled draws =
     (if deviant_freq = 0 \<or> mmn_n_partials deviant_freq = 0 then Some (Inl ZeroDivisionError)
      else
        (let trials' = concat (map (\<lambda>i. mmn_partials deviant_freq ! i) idx_shuffled)
         in Trialsequence_init (Count 2) 1 (py_slice_to n_trials' trials') [] draws))"

text \<open>The state after \<open>k\<close> pulls, whatever each of them did.\<close>

primrec advance :: "nat \<Rightarrow> 'a trialsequence \<Rightarrow> 'a trialsequence" where
  "advance 0 s = s"
| "advance (Suc k) s = snd (Trialsequence_next (advance k s))"

text \<open>
  A scan for the distance between deviants: \<open>z\<close> counts the entries since the last
  \<open>PyInt 1\<close>, and every \<open>PyInt 1\<close> must have at least three entries since the one before.
  Started at 3, the first deviant is free.
\<close>

fun spaced :: "nat \<Rightarrow> 'a pyval list \<Rightarrow> bool" where
  "spaced z [] = True"
| "spaced z (x # xs) = (if x = PyInt 1 then 3 \<le> z \<and> spaced 0 xs else spaced (Suc z) xs)"

text \<open>Partial block \<open>k\<close> of the oddball sequence: \<open>3 + k\<close> standards, then one deviant.\<close>

definition mmn_block :: "nat \<Rightarrow> 'a pyval list" where
  "mmn_block k = replicate (3 + k) (PyInt 0) @ [PyInt 1]"

text \<open>The default \<^verbatim>\<open>deviant_freq=0.12\<close>, as the rational it denotes.\<close>

definition default_deviant_freq :: real where
  "default_deviant_freq = 12 / 100"

subsection \<open>Trial sequences to evaluate on\<close>

text \<open>
  \<^verbatim>\<open>Trialsequence(conditions=2, trials=[0, 5])\<close> has an explicit trial list whose second
  entry is no index of the two conditions.
\<close>

definition stray_sequence :: "unit trialsequence" where
  "stray_sequence = projr (the (Trialsequence_init (Count 2) 1 [PyInt 0, PyInt 5] [] []))"

text \<open>
  \<^verbatim>\<open>Trialsequence(conditions=3, n_reps=2)\<close> where the shuffles give \<^verbatim>\<open>[2, 0, 1]\<close>, then
  \<^verbatim>\<open>[1, 2, 0]\<close> (rejected: it starts with the entry the first block ends with), then
  \<^verbatim>\<open>[0, 2, 1]\<close>.
\<close>

definition three_draws :: "unit pyval list list" where
  "three_draws = [[PyInt 2, PyInt 0, PyInt 1], [PyInt 1, PyInt 2, PyInt 0],
                  [PyInt 0, PyInt 2, PyInt 1]]"

definition two_blocks :: "unit trialsequence" where
  "two_blocks = projr (the (Trialsequence_init (Count 3) 2 [] [] three_draws))"

text \<open>\<^verbatim>\<open>Trialsequence(conditions=3)\<close> where the shuffle gives \<^verbatim>\<open>[2, 0, 1]\<close>.\<close>

definition one_block :: "unit trialsequence" where
  "one_block =
     projr (the (Trialsequence_init (Count 3) 1 [] [] [[PyInt 2, PyInt 0, PyInt 1]]))"

text \<open>
  Conditions given as a list of dictionaries, \<^verbatim>\<open>[{'freq': 500}, {'freq': 1000}]\<close>, a
  dictionary being an association list; \<^verbatim>\<open>Trialsequence(conditions=tones)\<close> where the
  shuffle swaps the two, and \<^verbatim>\<open>Trialsequence(conditions=tones, trials=[0, 1])\<close>.
\<close>

definition tones :: "(string \<times> int) list pyval list" where
  "tones = [PyObj [(''freq'', 500)], PyObj [(''freq'', 1000)]]"

definition tone_sequence :: "(string \<times> int) list trialsequence" where
  "tone_sequence = projr (the (Trialsequence_init (Listed tones) 1 [] [] [rev tones]))"

definition listed_tone_sequence :: "(string \<times> int) list trialsequence" where
  "listed_tone_sequence =
     projr (the (Trialsequence_init (Listed tones) 1 [PyInt 0, PyInt 1] [] []))"

text \<open>
  \<^verbatim>\<open>Trialsequence(conditions=3)\<close> followed by \<^verbatim>\<open>Trialsequence(conditions=2)\<close>, both leaving
  \<^verbatim>\<open>trials\<close> out: the second call finds in the shared default list what the first one
  generated.
\<close>

definition second_default :: "unit trialsequence" where
  "second_default = projr (the (Trialsequence_init (Count 2) 1 (trials one_block) [] []))"

text \<open>\<^verbatim>\<open>Trialsequence.mmn_sequence(100, 0.12)\<close> where the shuffle leaves \<^verbatim>\<open>idx\<close> as it is.\<close>

definition mmn_example :: "unit trialsequence" where
  "mmn_example =
     projr (the (mmn_sequence 100 default_deviant_freq (mmn_idx 100 default_deviant_freq) []))"

section \<open>Properties of the staircase\<close>

lemma run_Nil: "run s [] = s"
  by (simp add: run_def)

lemma run_snoc: "run s (calls @ [c]) = do_call (run s calls) c"
  by (simp add: run_def)

lemma calculatenext_intensity_cases [consumes 0, case_names raise_decide raise_record raise_step raise_change returns]:
  obtains
    e where "decide_reversal s = Inl e" "calculatenext_intensity s = (Inl e, s)"
  | r s1 e where "decide_reversal s = Inr (r, s1)" "record_reversal r s1 = Inl e"
      "calculatenext_intensity s = (Inl e, record_reversal_raised s1)"
  | r s1 s2 e where "decide_reversal s = Inr (r, s1)" "record_reversal r s1 = Inr s2"
      "new_step_size r (check_finished s2) = Inl e"
      "calculatenext_intensity s = (Inl e, check_finished s2)"
  | r s1 s2 s4 e where "decide_reversal s = Inr (r, s1)" "record_reversal r s1 = Inr s2"
      "new_step_size r (check_finished s2) = Inr s4" "change_intensity s4 = Inl e"
      "calculatenext_intensity s = (Inl e, s4)"
  | r s1 s2 s4 s5 where "decide_reversal s = Inr (r, s1)" "record_reversal r s1 = Inr s2"
      "new_step_size r (check_finished s2) = Inr s4" "change_intensity s4 = Inr s5"
      "calculatenext_intensity s = (Inr (), s5)"
proof (cases "decide_reversal s")
  case (Inl e)
  then have "calculatenext_intensity s = (Inl e, s)"
    by (simp add: calculatenext_intensity_def)
  with Inl show ?thesis using that(1) by blast
next
  case (Inr p)
  obtain r s1 where p: "p = (r, s1)" by (cases p)
  show ?thesis
  proof (cases "record_reversal r s1")
    case (Inl e)
    then have "calculatenext_intensity s = (Inl e, record_reversal_raised s1)"
      using Inr p by (simp add: calculatenext_intensity_def)
    with Inl Inr p show ?thesis using that(2) by blast
  next
    case rr: (Inr s2)
    show ?thesis
    proof (cases "new_step_size r (check_finished s2)")
      case (Inl e)
      then have "calculatenext_intensity s = (Inl e, check_finished s2)"
        using Inr p rr by (simp add: calculatenext_intensity_def Let_def)
      with Inl Inr p rr show ?thesis using that(3) by blast
    next
      case ns: (Inr s4)
      show ?thesis
      proof (cases "change_intensity s4")
        case (Inl e)
        then have "calculatenext_intensity s = (Inl e, s4)"
          using Inr p rr ns by (simp add: calculatenext_intensity_def Let_def)
        with Inl Inr p rr ns show ?thesis using that(4) by blast
      next
        case ci: (Inr s5)
        then have "calculatenext_intensity s = (Inr (), s5)"
          using Inr p rr ns by (simp add: calculatenext_intensity_def Let_def)
        with ci Inr p rr ns show ?thesis using that(5) by blast
      qed
    qed
  qed
qed

lemma decide_reversal_frame:
  "decide_reversal s = Inr (r, s1) \<Longrightarrow> \<exists>d. s1 = s\<lparr>current_direction := d\<rparr>"
  by (auto simp: decide_reversal_def split: if_splits intro: exI[of _ "current_direction s"])

lemma decide_reversal_raises:
  "decide_reversal s = Inl e \<Longrightarrow> reversal_intensities s = [] \<and> data s = [] \<and> e = IndexError"
  by (auto simp: decide_reversal_def split: if_splits)

lemma record_reversal_frame:
  "record_reversal r s = Inr s2 \<Longrightarrow>
     (\<not> r \<and> s2 = s) \<or>
     (r \<and> intensities s \<noteq> [] \<and>
      s2 = s\<lparr>reversal_points := reversal_points s @ [this_trial_n s],
              reversal_intensities := reversal_intensities s @ [last (intensities s)]\<rparr>)"
  by (auto simp: record_reversal_def Let_def split: if_splits)

lemma record_reversal_raises:
  "record_reversal r s = Inl e \<Longrightarrow> r \<and> intensities s = [] \<and> e = IndexError"
  by (auto simp: record_reversal_def Let_def split: if_splits)

lemma check_finished_frame:
  "check_finished s = s\<lparr>finished := (finished s \<or> stop_rule s)\<rparr>"
  by (cases "stop_rule s") (auto simp: check_finished_def stop_rule_def)

lemma new_step_size_frame:
  "new_step_size r s = Inr s4 \<Longrightarrow> \<exists>x. s4 = s\<lparr>step_size_current := x\<rparr>"
  by (auto simp: new_step_size_def split: if_splits intro: exI[of _ "step_size_current s"])

lemma new_step_size_raises:
  "new_step_size r s = Inl e \<Longrightarrow> step_sizes s = [] \<and> e = IndexError"
  by (auto simp: new_step_size_def split: if_splits)

lemma intensity_inc_frame:
  "intensity_inc s = s\<lparr>next_intensity := next_intensity (intensity_inc s), correct_counter := 0\<rparr>"
  by (simp add: intensity_inc_def Let_def)

lemma intensity_dec_frame:
  "intensity_dec s = s\<lparr>next_intensity := next_intensity (intensity_dec s), correct_counter := 0\<rparr>"
  by (simp add: intensity_dec_def Let_def)

lemma change_intensity_choice:
  "change_intensity s = Inr s5 \<Longrightarrow> s5 = intensity_inc s \<or> s5 = intensity_dec s \<or> s5 = s"
  by (auto simp: change_intensity_def split: if_splits)

lemma change_intensity_frame:
  assumes "change_intensity s = Inr s5"
  shows "\<exists>x c. s5 = s\<lparr>next_intensity := x, correct_counter := c\<rparr>"
proof -
  have same: "s = s\<lparr>next_intensity := next_intensity s, correct_counter := correct_counter s\<rparr>"
    by simp
  from change_intensity_choice[OF assms] show ?thesis
  proof (elim disjE)
    assume "s5 = intensity_inc s"
    then have "s5 = s\<lparr>next_intensity := next_intensity (intensity_inc s), correct_counter := 0\<rparr>"
      using intensity_inc_frame by simp
    then show ?thesis by (rule_tac x = "next_intensity (intensity_inc s)" in exI, rule_tac x = 0 in exI)
  next
    assume "s5 = intensity_dec s"
    then have "s5 = s\<lparr>next_intensity := next_intensity (intensity_dec s), correct_counter := 0\<rparr>"
      using intensity_dec_frame by simp
    then show ?thesis by (rule_tac x = "next_intensity (intensity_dec s)" in exI, rule_tac x = 0 in exI)
  next
    assume "s5 = s"
    with same have "s5 = s\<lparr>next_intensity := next_intensity s, correct_counter := correct_counter s\<rparr>"
      by simp
    then show ?thesis by (rule_tac x = "next_intensity s" in exI, rule_tac x = "correct_counter s" in exI)
  qed
qed

lemma change_intensity_raises:
  "change_intensity s = Inl e \<Longrightarrow> reversal_intensities s = [] \<and> data s = [] \<and> e = IndexError"
  by (auto simp: change_intensity_def split: if_splits)

lemma streak_frame: "streak r s = s\<lparr>correct_counter := correct_counter (streak r s)\<rparr>"
  by (simp add: streak_def)

lemma init_inv: "Staircase_init a b c d e f g h i j = Inr s \<Longrightarrow> inv s"
  by (auto simp: Staircase_init_def inv_def stop_rule_def Let_def split: list.splits step_sizes_arg.splits option.splits if_splits)

lemma next_inv: "inv s \<Longrightarrow> inv (snd (Staircase_next s))"
  by (auto simp: Staircase_next_def inv_def stop_rule_def)

lemma inv_empty_history:
  "inv s \<Longrightarrow> intensities s = [] \<Longrightarrow> \<not> finished s \<and> \<not> stop_rule s"
  by (cases "step_sizes s") (auto simp: inv_def stop_rule_def)

lemma inv_no_reversal:
  "inv s \<Longrightarrow> reversal_intensities s = [] \<Longrightarrow> \<not> finished s \<and> \<not> stop_rule s"
  by (cases "step_sizes s") (auto simp: inv_def stop_rule_def)

lemma decide_reversal_inv:
  "decide_reversal s = Inr (r, s1) \<Longrightarrow> inv s \<Longrightarrow> inv s1"
  by (drule decide_reversal_frame) (auto simp: inv_def stop_rule_def)

lemma record_reversal_inv:
  "record_reversal r s = Inr s2 \<Longrightarrow> inv s \<Longrightarrow> inv s2"
  by (drule record_reversal_frame) (auto simp: inv_def stop_rule_def)

lemma record_reversal_raised_inv:
  "inv s \<Longrightarrow> inv (record_reversal_raised s)"
  by (auto simp: inv_def stop_rule_def record_reversal_raised_def)

lemma check_finished_inv: "inv s \<Longrightarrow> inv (check_finished s)"
  by (auto simp: check_finished_frame inv_def stop_rule_def)

lemma check_finished_tight:
  "inv s \<Longrightarrow> finished (check_finished s) = stop_rule (check_finished s)"
  by (auto simp: check_finished_frame inv_def stop_rule_def)

lemma new_step_size_inv:
  "new_step_size r s = Inr s4 \<Longrightarrow> inv s \<Longrightarrow> inv s4"
  by (drule new_step_size_frame) (auto simp: inv_def stop_rule_def)

lemma new_step_size_tight:
  "new_step_size r s = Inr s4 \<Longrightarrow> finished s = stop_rule s \<Longrightarrow> finished s4 = stop_rule s4"
  by (drule new_step_size_frame) (auto simp: stop_rule_def)

lemma change_intensity_inv:
  "change_intensity s = Inr s5 \<Longrightarrow> inv s \<Longrightarrow> inv s5"
  by (drule change_intensity_frame) (auto simp: inv_def stop_rule_def)

lemma change_intensity_tight:
  "change_intensity s = Inr s5 \<Longrightarrow> finished s = stop_rule s \<Longrightarrow> finished s5 = stop_rule s5"
  by (drule change_intensity_frame) (auto simp: stop_rule_def)

lemma streak_inv: "inv s \<Longrightarrow> inv (streak r s)"
  by (subst streak_frame) (auto simp: inv_def stop_rule_def)

lemma replace_intensity_frame:
  "replace_intensity i s = Inr s2 \<Longrightarrow>
     s2 = s \<or> (intensities s \<noteq> [] \<and> (\<exists>v. s2 = s\<lparr>intensities := butlast (intensities s) @ [v]\<rparr>))"
  by (auto simp: replace_intensity_def split: option.splits if_splits)

lemma replace_intensity_raises:
  "replace_intensity i s = Inl e \<Longrightarrow> i \<noteq> None \<and> intensities s = [] \<and> e = IndexError"
  by (auto simp: replace_intensity_def split: option.splits if_splits)

lemma replace_intensity_inv:
  "replace_intensity i s = Inr s2 \<Longrightarrow> inv s \<Longrightarrow> inv s2"
  by (drule replace_intensity_frame) (auto simp: inv_def stop_rule_def)

lemma append_data_inv: "inv s \<Longrightarrow> inv (s\<lparr>data := xs\<rparr>)"
  by (auto simp: inv_def stop_rule_def)

lemma add_response_cases [consumes 0, case_names raise_pop calculate]:
  obtains
    e where "replace_intensity intensity (s\<lparr>data := data s @ [result]\<rparr>) = Inl e"
      "add_response result intensity s = (Inl e, s\<lparr>data := data s @ [result]\<rparr>)"
  | s2 where "replace_intensity intensity (s\<lparr>data := data s @ [result]\<rparr>) = Inr s2"
      "add_response result intensity s = calculatenext_intensity (streak result s2)"
proof (cases "replace_intensity intensity (s\<lparr>data := data s @ [result]\<rparr>)")
  case (Inl e)
  then have "add_response result intensity s = (Inl e, s\<lparr>data := data s @ [result]\<rparr>)"
    by (simp add: add_response_def Let_def)
  with Inl show ?thesis using that(1) by blast
next
  case (Inr s2)
  then have "add_response result intensity s = calculatenext_intensity (streak result s2)"
    by (simp add: add_response_def Let_def)
  with Inr show ?thesis using that(2) by blast
qed

lemma calculatenext_intensity_inv:
  assumes "inv s" shows "inv (snd (calculatenext_intensity s))"
proof (cases rule: calculatenext_intensity_cases[of s])
  case (raise_decide e)
  then show ?thesis using assms by simp
next
  case (raise_record r s1 e)
  then show ?thesis using assms decide_reversal_inv record_reversal_raised_inv by simp
next
  case (raise_step r s1 s2 e)
  then show ?thesis
    using assms decide_reversal_inv record_reversal_inv check_finished_inv by simp
next
  case (raise_change r s1 s2 s4 e)
  then show ?thesis
    using assms decide_reversal_inv record_reversal_inv check_finished_inv new_step_size_inv
    by simp
next
  case (returns r s1 s2 s4 s5)
  then show ?thesis
    using assms decide_reversal_inv record_reversal_inv check_finished_inv new_step_size_inv
      change_intensity_inv by simp
qed

lemma calculatenext_intensity_tight:
  assumes "inv s"
  shows "finished (snd (calculatenext_intensity s)) = stop_rule (snd (calculatenext_intensity s))"
proof (cases rule: calculatenext_intensity_cases[of s])
  case (raise_decide e)
  then show ?thesis using assms decide_reversal_raises inv_no_reversal by simp
next
  case (raise_record r s1 e)
  have "inv (record_reversal_raised s1)"
    using raise_record assms decide_reversal_inv record_reversal_raised_inv by blast
  moreover have "intensities (record_reversal_raised s1) = []"
    using record_reversal_raises[OF raise_record(2)] by (simp add: record_reversal_raised_def)
  ultimately show ?thesis using raise_record(3) inv_empty_history by simp
next
  case (raise_step r s1 s2 e)
  then have "inv s2" using assms decide_reversal_inv record_reversal_inv by blast
  then show ?thesis using raise_step(4) check_finished_tight by simp
next
  case (raise_change r s1 s2 s4 e)
  then have "inv s2" using assms decide_reversal_inv record_reversal_inv by blast
  then have "finished s4 = stop_rule s4"
    using check_finished_tight new_step_size_tight raise_change(3) by blast
  then show ?thesis using raise_change(5) by simp
next
  case (returns r s1 s2 s4 s5)
  then have "inv s2" using assms decide_reversal_inv record_reversal_inv by blast
  then have "finished s4 = stop_rule s4"
    using check_finished_tight new_step_size_tight returns(3) by blast
  then have "finished s5 = stop_rule s5"
    using change_intensity_tight returns(4) by blast
  then show ?thesis using returns(5) by simp
qed

lemma add_response_inv:
  assumes "inv s" shows "inv (snd (add_response result intensity s))"
proof (cases rule: add_response_cases[of intensity s result])
  case (raise_pop e)
  then show ?thesis using assms append_data_inv by simp
next
  case (calculate s2)
  have "inv s2" using calculate(1) assms append_data_inv replace_intensity_inv by blast
  then show ?thesis using calculate(2) streak_inv calculatenext_intensity_inv by simp
qed

lemma add_response_tight:
  assumes "inv s"
  shows "finished (snd (add_response result intensity s))
         = stop_rule (snd (add_response result intensity s))"
proof (cases rule: add_response_cases[of intensity s result])
  case (raise_pop e)
  have "inv (s\<lparr>data := data s @ [result]\<rparr>)" using assms append_data_inv by blast
  moreover have "intensities (s\<lparr>data := data s @ [result]\<rparr>) = []"
    using replace_intensity_raises[OF raise_pop(1)] by simp
  ultimately show ?thesis using raise_pop(2) inv_empty_history by simp
next
  case (calculate s2)
  have "inv s2" using calculate(1) assms append_data_inv replace_intensity_inv by blast
  then show ?thesis using calculate(2) streak_inv calculatenext_intensity_tight by simp
qed

lemma do_call_inv: "inv s \<Longrightarrow> inv (do_call s c)"
  by (cases c) (simp_all add: next_inv add_response_inv)

lemma run_inv: "inv s \<Longrightarrow> inv (run s calls)"
  by (induction calls rule: rev_induct) (simp_all add: run_Nil run_snoc do_call_inv)

text \<open>
  Claim C1. For every staircase the constructor returns and every run of calls on it, after
  a further call of \<^verbatim>\<open>add_response\<close> (whether it returns or raises) the flag \<^verbatim>\<open>finished\<close> is
  set exactly when both stopping conditions hold: at least \<^verbatim>\<open>n_reversals\<close> reversals are
  recorded and at least \<^verbatim>\<open>n_trials\<close> intensities have been presented.
\<close>

theorem C1_stopping_rule:
  assumes "Staircase_init start_val' n_reversals' step_sizes' n_trials' n_up' n_down' step_type'
             min_val' max_val' name' = Inr s0"
  shows "finished (snd (add_response result intensity (run s0 calls)))
         = (n_reversals (snd (add_response result intensity (run s0 calls)))
              \<le> int (length (reversal_intensities (snd (add_response result intensity (run s0 calls)))))
            \<and> n_trials (snd (add_response result intensity (run s0 calls)))
              \<le> int (length (intensities (snd (add_response result intensity (run s0 calls))))))"
  using add_response_tight[OF run_inv[OF init_inv[OF assms]]] by (simp add: stop_rule_def)

lemmas staircase_defs = Staircase_init_def Staircase_next_def add_response_def
  replace_intensity_def streak_def calculatenext_intensity_def decide_reversal_def
  record_reversal_def record_reversal_raised_def check_finished_def new_step_size_def
  change_intensity_def intensity_inc_def intensity_dec_def run_def

lemma example_stairs_init:
  "Staircase_init 10 None (Single 1) 4 1 1 ''lin'' None None [] = Inr example_stairs"
  by (simp add: example_stairs_def Staircase_init_def)

theorem C1_stopping_rule_witness:
  "Staircase_init 10 None (Single 1) 4 1 1 ''lin'' None None [] = Inr example_stairs
   \<and> finished (snd (add_response True None (run example_stairs example_calls)))
       = (n_reversals (snd (add_response True None (run example_stairs example_calls)))
            \<le> int (length (reversal_intensities
                  (snd (add_response True None (run example_stairs example_calls)))))
          \<and> n_trials (snd (add_response True None (run example_stairs example_calls)))
            \<le> int (length (intensities
                  (snd (add_response True None (run example_stairs example_calls))))))
   \<and> finished (snd (add_response True None (run example_stairs example_calls)))
   \<and> \<not> finished (run example_stairs example_calls)"
proof -
  have fin: "finished (snd (add_response True None (run example_stairs example_calls)))"
    by (simp add: example_stairs_def example_calls_def staircase_defs)
  have nofin: "\<not> finished (run example_stairs example_calls)"
    by (simp add: example_stairs_def example_calls_def staircase_defs)
  show ?thesis
    using C1_stopping_rule[OF example_stairs_init, of True None example_calls] fin nofin
      example_stairs_init by blast
qed

lemma calculatenext_intensity_after_record:
  assumes d: "decide_reversal s = Inr (r, s1)" and rr: "record_reversal r s1 = Inr s2"
  shows "current_direction (snd (calculatenext_intensity s)) = current_direction s2
         \<and> reversal_points (snd (calculatenext_intensity s)) = reversal_points s2
         \<and> reversal_intensities (snd (calculatenext_intensity s)) = reversal_intensities s2
         \<and> intensities (snd (calculatenext_intensity s)) = intensities s2"
proof (cases rule: calculatenext_intensity_cases[of s])
  case (raise_decide e)
  then show ?thesis using d by simp
next
  case (raise_record r' s1' e)
  then show ?thesis using d rr by simp
next
  case (raise_step r' s1' s2' e)
  then have "s2' = s2" using d rr by simp
  then show ?thesis using raise_step(4) by (simp add: check_finished_frame)
next
  case (raise_change r' s1' s2' s4 e)
  then have eq: "s2' = s2" "r' = r" using d rr by simp_all
  obtain x where "s4 = (check_finished s2)\<lparr>step_size_current := x\<rparr>"
    using new_step_size_frame raise_change(3) eq by blast
  then show ?thesis using raise_change(5) by (simp add: check_finished_frame)
next
  case (returns r' s1' s2' s4 s5)
  then have eq: "s2' = s2" "r' = r" using d rr by simp_all
  obtain x where s4: "s4 = (check_finished s2)\<lparr>step_size_current := x\<rparr>"
    using new_step_size_frame returns(3) eq by blast
  obtain y c where "s5 = s4\<lparr>next_intensity := y, correct_counter := c\<rparr>"
    using change_intensity_frame returns(4) by blast
  then show ?thesis using returns(5) s4 by (simp add: check_finished_frame)
qed

lemma pre_reversal_wrong:
  assumes "reversal_intensities s = []" "data s \<noteq> []" "\<not> last (data s)"
    "current_direction s = ''down''" "intensities s \<noteq> []"
  shows "current_direction (snd (calculatenext_intensity s)) = ''up''
         \<and> reversal_points (snd (calculatenext_intensity s)) = reversal_points s @ [this_trial_n s]
         \<and> reversal_intensities (snd (calculatenext_intensity s)) = [last (intensities s)]
         \<and> intensities (snd (calculatenext_intensity s)) = intensities s"
proof -
  have d: "decide_reversal s = Inr (True, s\<lparr>current_direction := ''up''\<rparr>)"
    using assms by (simp add: decide_reversal_def)
  have rr: "record_reversal True (s\<lparr>current_direction := ''up''\<rparr>)
            = Inr (s\<lparr>current_direction := ''up'',
                     reversal_points := reversal_points s @ [this_trial_n s],
                     reversal_intensities := [last (intensities s)]\<rparr>)"
    using assms by (simp add: record_reversal_def Let_def)
  show ?thesis using calculatenext_intensity_after_record[OF d rr] by simp
qed

lemma pre_reversal_right:
  assumes "reversal_intensities s = []" "data s \<noteq> []" "last (data s)"
    "current_direction s = ''up''" "intensities s \<noteq> []"
  shows "current_direction (snd (calculatenext_intensity s)) = ''down''
         \<and> reversal_points (snd (calculatenext_intensity s)) = reversal_points s @ [this_trial_n s]
         \<and> reversal_intensities (snd (calculatenext_intensity s)) = [last (intensities s)]
         \<and> intensities (snd (calculatenext_intensity s)) = intensities s"
proof -
  have d: "decide_reversal s = Inr (True, s\<lparr>current_direction := ''down''\<rparr>)"
    using assms by (simp add: decide_reversal_def)
  have rr: "record_reversal True (s\<lparr>current_direction := ''down''\<rparr>)
            = Inr (s\<lparr>current_direction := ''down'',
                     reversal_points := reversal_points s @ [this_trial_n s],
                     reversal_intensities := [last (intensities s)]\<rparr>)"
    using assms by (simp add: record_reversal_def Let_def)
  show ?thesis using calculatenext_intensity_after_record[OF d rr] by simp
qed

text \<open>The state that \<^verbatim>\<open>add_response\<close> hands to \<^verbatim>\<open>calculatenext_intensity\<close>.\<close>

lemma add_response_with_history:
  assumes "intensities s \<noteq> []"
  shows "add_response result intensity s
         = calculatenext_intensity
             (streak result
                (s\<lparr>data := data s @ [result],
                   intensities := (case intensity of None \<Rightarrow> intensities s
                                   | Some v \<Rightarrow> butlast (intensities s) @ [v])\<rparr>))"
  using assms by (cases intensity) (simp_all add: add_response_def replace_intensity_def Let_def)

lemma streak_fields:
  "data (streak r s) = data s" "intensities (streak r s) = intensities s"
  "reversal_intensities (streak r s) = reversal_intensities s"
  "reversal_points (streak r s) = reversal_points s"
  "current_direction (streak r s) = current_direction s"
  "this_trial_n (streak r s) = this_trial_n s"
  by (simp_all add: streak_def)

text \<open>
  Claim C6. While no reversal is recorded and a trial has been presented, whatever \<^verbatim>\<open>n_up\<close>
  and \<^verbatim>\<open>n_down\<close> are: a wrong response while the direction is \<^verbatim>\<open>'down'\<close> flips it to \<^verbatim>\<open>'up'\<close>
  and records a reversal (the trial number, and the intensity of that trial, which is the
  override when one is given); a right response while the direction is \<^verbatim>\<open>'up'\<close> flips it to
  \<^verbatim>\<open>'down'\<close> and records a reversal likewise.
\<close>

theorem C6_pre_reversal:
  assumes "reversal_intensities s = []" and "intensities s \<noteq> []"
  shows "(current_direction s = ''down'' \<longrightarrow>
            current_direction (snd (add_response False intensity s)) = ''up''
            \<and> reversal_points (snd (add_response False intensity s))
                = reversal_points s @ [this_trial_n s]
            \<and> reversal_intensities (snd (add_response False intensity s))
                = [case intensity of None \<Rightarrow> last (intensities s) | Some v \<Rightarrow> v])
         \<and> (current_direction s = ''up'' \<longrightarrow>
            current_direction (snd (add_response True intensity s)) = ''down''
            \<and> reversal_points (snd (add_response True intensity s))
                = reversal_points s @ [this_trial_n s]
            \<and> reversal_intensities (snd (add_response True intensity s))
                = [case intensity of None \<Rightarrow> last (intensities s) | Some v \<Rightarrow> v])"
proof (intro conjI impI)
  assume dir: "current_direction s = ''down''"
  let ?t = "streak False (s\<lparr>data := data s @ [False],
              intensities := (case intensity of None \<Rightarrow> intensities s
                              | Some v \<Rightarrow> butlast (intensities s) @ [v])\<rparr>)"
  have t: "reversal_intensities ?t = []" "data ?t \<noteq> []" "\<not> last (data ?t)"
    "current_direction ?t = ''down''" "intensities ?t \<noteq> []"
    using assms dir by (simp_all add: streak_fields split: option.splits)
  have last: "last (intensities ?t) = (case intensity of None \<Rightarrow> last (intensities s) | Some v \<Rightarrow> v)"
    by (simp add: streak_fields split: option.splits)
  from pre_reversal_wrong[OF t] add_response_with_history[OF assms(2), of False intensity] last
  show "current_direction (snd (add_response False intensity s)) = ''up''"
    and "reversal_points (snd (add_response False intensity s)) = reversal_points s @ [this_trial_n s]"
    and "reversal_intensities (snd (add_response False intensity s))
          = [case intensity of None \<Rightarrow> last (intensities s) | Some v \<Rightarrow> v]"
    by (simp_all add: streak_fields)
next
  assume dir: "current_direction s = ''up''"
  let ?t = "streak True (s\<lparr>data := data s @ [True],
              intensities := (case intensity of None \<Rightarrow> intensities s
                              | Some v \<Rightarrow> butlast (intensities s) @ [v])\<rparr>)"
  have t: "reversal_intensities ?t = []" "data ?t \<noteq> []" "last (data ?t)"
    "current_direction ?t = ''up''" "intensities ?t \<noteq> []"
    using assms dir by (simp_all add: streak_fields split: option.splits)
  have last: "last (intensities ?t) = (case intensity of None \<Rightarrow> last (intensities s) | Some v \<Rightarrow> v)"
    by (simp add: streak_fields split: option.splits)
  from pre_reversal_right[OF t] add_response_with_history[OF assms(2), of True intensity] last
  show "current_direction (snd (add_response True intensity s)) = ''down''"
    and "reversal_points (snd (add_response True intensity s)) = reversal_points s @ [this_trial_n s]"
    and "reversal_intensities (snd (add_response True intensity s))
          = [case intensity of None \<Rightarrow> last (intensities s) | Some v \<Rightarrow> v]"
    by (simp_all add: streak_fields)
qed

text \<open>
  Both halves at work: after one pull the direction is \<^verbatim>\<open>'down'\<close>; a wrong response given
  before any pull raises and leaves the direction \<^verbatim>\<open>'up'\<close> with no reversal intensity
  recorded, so that after a pull the second half applies.
\<close>

theorem C6_pre_reversal_witness:
  "reversal_intensities (run example_stairs [Next]) = []
   \<and> intensities (run example_stairs [Next]) = [10]
   \<and> current_direction (run example_stairs [Next]) = ''down''
   \<and> current_direction (snd (add_response False None (run example_stairs [Next]))) = ''up''
   \<and> reversal_points (snd (add_response False None (run example_stairs [Next]))) = [0]
   \<and> reversal_intensities (snd (add_response False None (run example_stairs [Next]))) = [10]
   \<and> reversal_intensities (run example_stairs [Add_response False None, Next]) = []
   \<and> intensities (run example_stairs [Add_response False None, Next]) = [10]
   \<and> current_direction (run example_stairs [Add_response False None, Next]) = ''up''
   \<and> current_direction
        (snd (add_response True (Some 12) (run example_stairs [Add_response False None, Next])))
       = ''down''
   \<and> reversal_points
        (snd (add_response True (Some 12) (run example_stairs [Add_response False None, Next])))
       = [- 1, 0]
   \<and> reversal_intensities
        (snd (add_response True (Some 12) (run example_stairs [Add_response False None, Next])))
       = [12]"
proof -
  have d: "reversal_intensities (run example_stairs [Next]) = []"
    "intensities (run example_stairs [Next]) = [10]"
    "current_direction (run example_stairs [Next]) = ''down''"
    "reversal_points (run example_stairs [Next]) = []"
    "this_trial_n (run example_stairs [Next]) = 0"
    by (simp_all add: example_stairs_def staircase_defs)
  have u: "reversal_intensities (run example_stairs [Add_response False None, Next]) = []"
    "intensities (run example_stairs [Add_response False None, Next]) = [10]"
    "current_direction (run example_stairs [Add_response False None, Next]) = ''up''"
    "reversal_points (run example_stairs [Add_response False None, Next]) = [- 1]"
    "this_trial_n (run example_stairs [Add_response False None, Next]) = 0"
    by (simp_all add: example_stairs_def staircase_defs)
  have d2: "intensities (run example_stairs [Next]) \<noteq> []" using d(2) by simp
  have u2: "intensities (run example_stairs [Add_response False None, Next]) \<noteq> []"
    using u(2) by simp
  from C6_pre_reversal[OF d(1) d2, of None] C6_pre_reversal[OF u(1) u2, of "Some 12"]
  show ?thesis using d u by simp
qed

lemma decide_reversal_fields:
  assumes "decide_reversal s = Inr (r, s1)"
  shows "intensities s1 = intensities s" "data s1 = data s" "step_sizes s1 = step_sizes s"
    "this_trial_n s1 = this_trial_n s" "reversal_points s1 = reversal_points s"
  using decide_reversal_frame[OF assms] by auto

lemma record_reversal_fields:
  assumes "record_reversal r s = Inr s2"
  shows "intensities s2 = intensities s" "data s2 = data s" "step_sizes s2 = step_sizes s"
  using record_reversal_frame[OF assms] by auto

lemma new_step_size_fields:
  assumes "new_step_size r s = Inr s4"
  shows "intensities s4 = intensities s" "data s4 = data s" "step_sizes s4 = step_sizes s"
    "reversal_intensities s4 = reversal_intensities s"
  using new_step_size_frame[OF assms] by auto

lemma change_intensity_fields:
  assumes "change_intensity s = Inr s5"
  shows "intensities s5 = intensities s" "data s5 = data s" "step_sizes s5 = step_sizes s"
  using change_intensity_frame[OF assms] by auto

lemma check_finished_fields:
  "intensities (check_finished s) = intensities s" "data (check_finished s) = data s"
  "step_sizes (check_finished s) = step_sizes s"
  "reversal_intensities (check_finished s) = reversal_intensities s"
  by (simp_all add: check_finished_def)

lemma calculatenext_intensity_intensities:
  "intensities (snd (calculatenext_intensity s)) = intensities s"
proof (cases rule: calculatenext_intensity_cases[of s])
  case (raise_decide e)
  then show ?thesis by simp
next
  case (raise_record r s1 e)
  then show ?thesis by (simp add: record_reversal_raised_def decide_reversal_fields)
next
  case (raise_step r s1 s2 e)
  then show ?thesis
    by (simp add: check_finished_fields record_reversal_fields decide_reversal_fields)
next
  case (raise_change r s1 s2 s4 e)
  then show ?thesis
    by (simp add: new_step_size_fields check_finished_fields record_reversal_fields
        decide_reversal_fields)
next
  case (returns r s1 s2 s4 s5)
  then show ?thesis
    by (simp add: change_intensity_fields new_step_size_fields check_finished_fields
        record_reversal_fields decide_reversal_fields)
qed

lemma add_response_length_intensities:
  "length (intensities (snd (add_response result intensity s))) = length (intensities s)"
proof (cases rule: add_response_cases[of intensity s result])
  case (raise_pop e)
  then show ?thesis by simp
next
  case (calculate s2)
  have "length (intensities s2) = length (intensities s)"
    using replace_intensity_frame[OF calculate(1)] by auto
  then show ?thesis
    using calculate(2) by (simp add: calculatenext_intensity_intensities streak_fields)
qed

lemma calculatenext_intensity_returns:
  assumes "inv s" "intensities s \<noteq> []" "data s \<noteq> []"
  shows "fst (calculatenext_intensity s) = Inr ()"
proof (cases rule: calculatenext_intensity_cases[of s])
  case (raise_decide e)
  then show ?thesis using assms decide_reversal_raises by blast
next
  case (raise_record r s1 e)
  then have "intensities s1 = []" using record_reversal_raises by blast
  then show ?thesis using assms raise_record by (simp add: decide_reversal_fields)
next
  case (raise_step r s1 s2 e)
  then have "step_sizes (check_finished s2) = []" using new_step_size_raises by blast
  then have "step_sizes s = []"
    using raise_step by (simp add: check_finished_fields record_reversal_fields decide_reversal_fields)
  then show ?thesis using assms by (simp add: inv_def)
next
  case (raise_change r s1 s2 s4 e)
  then have "data s4 = []" using change_intensity_raises by blast
  then have "data s = []"
    using raise_change
    by (simp add: new_step_size_fields check_finished_fields record_reversal_fields
        decide_reversal_fields)
  then show ?thesis using assms by simp
next
  case (returns r s1 s2 s4 s5)
  then show ?thesis by simp
qed

lemma add_response_returns:
  assumes "inv s" "intensities s \<noteq> []"
  shows "fst (add_response result intensity s) = Inr ()"
proof -
  let ?t = "streak result (s\<lparr>data := data s @ [result],
              intensities := (case intensity of None \<Rightarrow> intensities s
                              | Some v \<Rightarrow> butlast (intensities s) @ [v])\<rparr>)"
  have "inv (s\<lparr>data := data s @ [result],
              intensities := (case intensity of None \<Rightarrow> intensities s
                              | Some v \<Rightarrow> butlast (intensities s) @ [v])\<rparr>)"
    using assms by (auto simp: inv_def stop_rule_def split: option.splits)
  then have "inv ?t" by (rule streak_inv)
  moreover have "intensities ?t \<noteq> []" "data ?t \<noteq> []"
    using assms by (simp_all add: streak_fields split: option.splits)
  ultimately have "fst (calculatenext_intensity ?t) = Inr ()"
    by (rule calculatenext_intensity_returns)
  then show ?thesis using add_response_with_history[OF assms(2)] by simp
qed

lemma pulls_Nil: "pulls [] = 0"
  by (simp add: pulls_def)

lemma pulls_snoc: "pulls (calls @ [c]) = pulls calls + (if c = Next then 1 else 0)"
  by (simp add: pulls_def)

lemma history_after_pull:
  assumes "inv s0"
  shows "0 < pulls calls \<Longrightarrow> intensities (run s0 calls) \<noteq> []"
proof (induction calls rule: rev_induct)
  case Nil
  then show ?case by (simp add: pulls_Nil)
next
  case (snoc c calls)
  show ?case
  proof (cases c)
    case Next
    have "inv (run s0 calls)" using assms by (rule run_inv)
    then have "finished (run s0 calls) \<Longrightarrow> intensities (run s0 calls) \<noteq> []"
      using inv_empty_history by blast
    then show ?thesis using Next by (auto simp: run_snoc Staircase_next_def)
  next
    case (Add_response result intensity)
    then have "0 < pulls calls" using snoc.prems by (simp add: pulls_snoc)
    then have "length (intensities (run s0 calls)) \<noteq> 0" using snoc.IH by simp
    then have "length (intensities (snd (add_response result intensity (run s0 calls)))) \<noteq> 0"
      by (simp add: add_response_length_intensities)
    then show ?thesis using Add_response by (simp add: run_snoc)
  qed
qed

lemma no_history_before_pull:
  assumes "intensities s0 = []"
  shows "pulls calls = 0 \<Longrightarrow> intensities (run s0 calls) = []"
proof (induction calls rule: rev_induct)
  case Nil
  then show ?case using assms by (simp add: run_Nil)
next
  case (snoc c calls)
  then obtain result intensity where c: "c = Add_response result intensity"
    by (cases c) (simp_all add: pulls_snoc)
  have "pulls calls = 0" using snoc.prems by (simp add: pulls_snoc)
  then have "length (intensities (run s0 calls)) = 0" using snoc.IH by simp
  then have "length (intensities (snd (add_response result intensity (run s0 calls)))) = 0"
    by (simp add: add_response_length_intensities)
  then show ?case using c by (simp add: run_snoc)
qed

lemma init_fresh:
  assumes "Staircase_init a b c d e f g h i j = Inr s"
  shows "intensities s = []" "data s = []" "reversal_intensities s = []"
    "current_direction s = ''down''"
  using assms
  by (auto simp: Staircase_init_def Let_def split: list.splits)

lemma override_without_history:
  "intensities s = [] \<Longrightarrow> fst (add_response result (Some v) s) = Inl IndexError"
  by (simp add: add_response_def replace_intensity_def Let_def)

lemma wrong_first_response_without_history:
  assumes "intensities s = []" "data s = []" "reversal_intensities s = []"
    "current_direction s = ''down''"
  shows "fst (add_response False None s) = Inl IndexError"
proof -
  let ?t = "streak False (s\<lparr>data := data s @ [False]\<rparr>)"
  have d: "decide_reversal ?t = Inr (True, ?t\<lparr>current_direction := ''up''\<rparr>)"
    using assms by (simp add: decide_reversal_def streak_fields)
  have "record_reversal True (?t\<lparr>current_direction := ''up''\<rparr>) = Inl IndexError"
    using assms by (simp add: record_reversal_def Let_def streak_fields)
  then have "fst (calculatenext_intensity ?t) = Inl IndexError"
    using d by (simp add: calculatenext_intensity_def)
  then show ?thesis by (simp add: add_response_def replace_intensity_def Let_def)
qed

text \<open>
  Claim C10. On a staircase the constructor returned, after any run of calls that holds at
  least one pull (as it does when more pulls than responses precede the call),
  \<^verbatim>\<open>add_response\<close> returns: it neither pops from nor indexes into an empty list. Before any
  pull, a call with an override intensity raises \<^verbatim>\<open>IndexError\<close>, and so does a wrong first
  response.
\<close>

theorem C10_history_faults:
  assumes "Staircase_init start_val' n_reversals' step_sizes' n_trials' n_up' n_down' step_type'
             min_val' max_val' name' = Inr s0"
  shows "(0 < pulls calls \<longrightarrow> fst (add_response result intensity (run s0 calls)) = Inr ())
         \<and> (pulls calls = 0 \<longrightarrow>
              fst (add_response result (Some v) (run s0 calls)) = Inl IndexError)
         \<and> fst (add_response False None s0) = Inl IndexError"
proof (intro conjI impI)
  assume "0 < pulls calls"
  then have "intensities (run s0 calls) \<noteq> []"
    using history_after_pull[OF init_inv[OF assms]] by blast
  then show "fst (add_response result intensity (run s0 calls)) = Inr ()"
    using add_response_returns[OF run_inv[OF init_inv[OF assms]]] by blast
next
  assume "pulls calls = 0"
  then have "intensities (run s0 calls) = []"
    using no_history_before_pull[OF init_fresh(1)[OF assms]] by blast
  then show "fst (add_response result (Some v) (run s0 calls)) = Inl IndexError"
    by (rule override_without_history)
next
  show "fst (add_response False None s0) = Inl IndexError"
    using init_fresh[OF assms] by (rule wrong_first_response_without_history)
qed

theorem C10_history_faults_witness:
  "Staircase_init 10 None (Single 1) 4 1 1 ''lin'' None None [] = Inr example_stairs
   \<and> pulls [Next, Add_response False None, Next] = 2
   \<and> fst (add_response True (Some 12) (run example_stairs [Next, Add_response False None, Next]))
       = Inr ()
   \<and> pulls [Add_response True None] = 0
   \<and> fst (add_response False (Some 12) (run example_stairs [Add_response True None]))
       = Inl IndexError
   \<and> fst (add_response False None example_stairs) = Inl IndexError"
proof -
  have p: "pulls [Next, Add_response False None, Next] = 2" "pulls [Add_response True None] = 0"
    by (simp_all add: pulls_def)
  from C10_history_faults[OF example_stairs_init,
      where calls = "[Next, Add_response False None, Next]" and result = True
        and intensity = "Some 12"]
    C10_history_faults[OF example_stairs_init,
      where calls = "[Add_response True None]" and result = False and v = 12]
  show ?thesis using p example_stairs_init by simp
qed

lemma step_up:
  assumes "0 \<le> (x::real)" "0 \<le> c"
  shows "x \<le> x * 10 powr c" "0 \<le> x * 10 powr c"
proof -
  have "1 \<le> (10::real) powr c" using assms(2) by (simp add: ge_one_powr_ge_zero)
  then show "x \<le> x * 10 powr c" using assms(1) by (simp add: mult_le_cancel_left1)
  show "0 \<le> x * 10 powr c" using assms(1) by simp
qed

lemma step_down:
  assumes "0 \<le> (x::real)" "0 \<le> c"
  shows "x / 10 powr c \<le> x" "0 \<le> x / 10 powr c"
proof -
  have "1 \<le> (10::real) powr c" using assms(2) by (simp add: ge_one_powr_ge_zero)
  then show "x / 10 powr c \<le> x" using assms(1) by (simp add: divide_le_eq mult_le_cancel_left1)
  show "0 \<le> x / 10 powr c" using assms(1) by simp
qed

lemma raised_ge:
  assumes "bounded s"
  shows "next_intensity s \<le> raised s"
    and "step_type s = ''db'' \<or> step_type s = ''log'' \<Longrightarrow> 0 \<le> raised s"
  using assms step_up[of "next_intensity s" "step_size_current s / 20"]
    step_up[of "next_intensity s" "step_size_current s"]
  by (auto simp: bounded_def raised_def)

lemma lowered_le:
  assumes "bounded s"
  shows "lowered s \<le> next_intensity s"
    and "step_type s = ''db'' \<or> step_type s = ''log'' \<Longrightarrow> 0 \<le> lowered s"
  using assms step_down[of "next_intensity s" "step_size_current s / 20"]
    step_down[of "next_intensity s" "step_size_current s"]
  by (auto simp: bounded_def lowered_def)

lemma intensity_inc_eq:
  "intensity_inc s =
     s\<lparr>next_intensity := (case max_val s of Some m \<Rightarrow> if raised s > m then m else raised s
                           | None \<Rightarrow> raised s),
       correct_counter := 0\<rparr>"
  unfolding intensity_inc_def raised_def Let_def by (rule refl)

lemma lowered_eq:
  "(if step_type s = ''log''
    then (if step_type s = ''db'' then next_intensity s / 10 powr (step_size_current s / 20)
          else next_intensity s) / 10 powr step_size_current s
    else if step_type s = ''lin''
    then (if step_type s = ''db'' then next_intensity s / 10 powr (step_size_current s / 20)
          else next_intensity s) - step_size_current s
    else (if step_type s = ''db'' then next_intensity s / 10 powr (step_size_current s / 20)
          else next_intensity s)) = lowered s"
  by (simp add: lowered_def)

lemma intensity_dec_eq:
  "intensity_dec s =
     s\<lparr>correct_counter := 0,
       next_intensity := (case min_val s of Some m \<Rightarrow> if lowered s < m then m else lowered s
                           | None \<Rightarrow> lowered s)\<rparr>"
  unfolding intensity_dec_def Let_def lowered_eq by (rule refl)

lemma bounded_update:
  "bounded (s\<lparr>next_intensity := y, correct_counter := c\<rparr>)
   = (within_bounds s y \<and> 0 \<le> step_size_current s \<and> (\<forall>x \<in> set (step_sizes s). 0 \<le> x)
      \<and> (step_type s = ''db'' \<or> step_type s = ''log'' \<longrightarrow> 0 \<le> y))"
  "bounded (s\<lparr>correct_counter := c, next_intensity := y\<rparr>)
   = (within_bounds s y \<and> 0 \<le> step_size_current s \<and> (\<forall>x \<in> set (step_sizes s). 0 \<le> x)
      \<and> (step_type s = ''db'' \<or> step_type s = ''log'' \<longrightarrow> 0 \<le> y))"
  by (simp_all add: bounded_def within_bounds_def)

lemma clamp_above:
  assumes "within_bounds s x" "x \<le> y"
  shows "within_bounds s (case max_val s of Some m \<Rightarrow> if y > m then m else y | None \<Rightarrow> y)"
  using assms by (auto simp: within_bounds_def split: option.splits)

lemma clamp_below:
  assumes "within_bounds s x" "y \<le> x"
  shows "within_bounds s (case min_val s of Some m \<Rightarrow> if y < m then m else y | None \<Rightarrow> y)"
  using assms by (auto simp: within_bounds_def split: option.splits)

lemma clamp_above_nonneg:
  assumes "within_bounds s x" "0 \<le> x" "0 \<le> (y::real)"
  shows "0 \<le> (case max_val s of Some m \<Rightarrow> if y > m then m else y | None \<Rightarrow> y)"
  using assms by (auto simp: within_bounds_def split: option.splits)

lemma clamp_below_nonneg:
  assumes "0 \<le> (y::real)"
  shows "0 \<le> (case min_val s of Some m \<Rightarrow> if y < m then m else y | None \<Rightarrow> y)"
  using assms by (auto split: option.splits)

lemma intensity_inc_bounded:
  assumes "bounded s" shows "bounded (intensity_inc s)"
proof -
  have b: "within_bounds s (next_intensity s)" "0 \<le> step_size_current s"
    "\<forall>x \<in> set (step_sizes s). 0 \<le> x"
    "step_type s = ''db'' \<or> step_type s = ''log'' \<longrightarrow> 0 \<le> next_intensity s"
    using assms by (simp_all add: bounded_def)
  show ?thesis
    unfolding intensity_inc_eq bounded_update
    using b clamp_above[OF b(1) raised_ge(1)[OF assms]]
      clamp_above_nonneg[OF b(1) _ raised_ge(2)[OF assms]]
    by blast
qed

lemma intensity_dec_bounded:
  assumes "bounded s" shows "bounded (intensity_dec s)"
proof -
  have b: "within_bounds s (next_intensity s)" "0 \<le> step_size_current s"
    "\<forall>x \<in> set (step_sizes s). 0 \<le> x"
    "step_type s = ''db'' \<or> step_type s = ''log'' \<longrightarrow> 0 \<le> next_intensity s"
    using assms by (simp_all add: bounded_def)
  show ?thesis
    unfolding intensity_dec_eq bounded_update
    using b clamp_below[OF b(1) lowered_le(1)[OF assms]]
      clamp_below_nonneg[OF lowered_le(2)[OF assms]]
    by blast
qed

lemma bounded_frames:
  "bounded (s\<lparr>current_direction := d\<rparr>) = bounded s"
  "bounded (s\<lparr>reversal_intensities := rs\<rparr>) = bounded s"
  "bounded (s\<lparr>reversal_points := ps\<rparr>) = bounded s"
  "bounded (s\<lparr>finished := f\<rparr>) = bounded s"
  "bounded (s\<lparr>correct_counter := c\<rparr>) = bounded s"
  "bounded (s\<lparr>intensities := xs\<rparr>) = bounded s"
  "bounded (s\<lparr>data := ds\<rparr>) = bounded s"
  "bounded (s\<lparr>this_trial_n := n\<rparr>) = bounded s"
  by (simp_all add: bounded_def within_bounds_def)

lemma within_bounds_cong:
  "min_val s' = min_val s \<Longrightarrow> max_val s' = max_val s \<Longrightarrow> within_bounds s' = within_bounds s"
  by (simp add: within_bounds_def fun_eq_iff)

lemma within_bounds_frames:
  "within_bounds (s\<lparr>current_direction := d\<rparr>) = within_bounds s"
  "within_bounds (s\<lparr>reversal_intensities := rs\<rparr>) = within_bounds s"
  "within_bounds (s\<lparr>reversal_points := ps\<rparr>) = within_bounds s"
  "within_bounds (s\<lparr>finished := f\<rparr>) = within_bounds s"
  "within_bounds (s\<lparr>correct_counter := c\<rparr>) = within_bounds s"
  "within_bounds (s\<lparr>intensities := xs\<rparr>) = within_bounds s"
  "within_bounds (s\<lparr>data := ds\<rparr>) = within_bounds s"
  "within_bounds (s\<lparr>this_trial_n := n\<rparr>) = within_bounds s"
  "within_bounds (s\<lparr>step_size_current := z\<rparr>) = within_bounds s"
  "within_bounds (s\<lparr>next_intensity := y\<rparr>) = within_bounds s"
  by (rule within_bounds_cong, simp, simp)+

lemma decide_reversal_bounded:
  "decide_reversal s = Inr (r, s1) \<Longrightarrow>
     bounded s1 = bounded s \<and> within_bounds s1 = within_bounds s"
  by (drule decide_reversal_frame) (auto simp: bounded_frames within_bounds_frames)

lemma record_reversal_bounded:
  "record_reversal r s = Inr s2 \<Longrightarrow>
     bounded s2 = bounded s \<and> within_bounds s2 = within_bounds s"
  by (drule record_reversal_frame) (auto simp: bounded_frames within_bounds_frames)

lemma record_reversal_raised_bounded:
  "bounded (record_reversal_raised s) = bounded s"
  "within_bounds (record_reversal_raised s) = within_bounds s"
  by (simp_all add: record_reversal_raised_def bounded_frames within_bounds_frames)

lemma check_finished_bounded:
  "bounded (check_finished s) = bounded s"
  "within_bounds (check_finished s) = within_bounds s"
  by (simp_all add: check_finished_frame bounded_frames within_bounds_frames)

lemma bounded_step_size:
  "bounded s \<Longrightarrow> z \<in> set (step_sizes s) \<Longrightarrow> bounded (s\<lparr>step_size_current := z\<rparr>)"
  by (simp add: bounded_def within_bounds_def)

lemma new_step_size_choice:
  "new_step_size r s = Inr s4 \<Longrightarrow>
     s4 = s \<or> (\<exists>z \<in> set (step_sizes s). s4 = s\<lparr>step_size_current := z\<rparr>)"
  by (auto simp: new_step_size_def split: if_splits)

lemma new_step_size_bounded:
  assumes "new_step_size r s = Inr s4" "bounded s"
  shows "bounded s4" "within_bounds s4 = within_bounds s"
proof -
  from new_step_size_choice[OF assms(1)]
  show "bounded s4" using assms(2) bounded_step_size by blast
  from new_step_size_frame[OF assms(1)]
  show "within_bounds s4 = within_bounds s" by (auto intro: within_bounds_cong)
qed

lemma change_intensity_bounded:
  assumes "change_intensity s = Inr s5" "bounded s"
  shows "bounded s5" "within_bounds s5 = within_bounds s"
proof -
  from change_intensity_choice[OF assms(1)]
  show "bounded s5" using assms(2) intensity_inc_bounded intensity_dec_bounded by blast
  from change_intensity_frame[OF assms(1)]
  show "within_bounds s5 = within_bounds s" by (auto intro: within_bounds_cong)
qed

lemma streak_bounded:
  "bounded (streak r s) = bounded s" "within_bounds (streak r s) = within_bounds s"
  by (subst streak_frame, simp only: bounded_frames within_bounds_frames)+

lemma replace_intensity_bounded:
  "replace_intensity i s = Inr s2 \<Longrightarrow>
     bounded s2 = bounded s \<and> within_bounds s2 = within_bounds s"
  by (drule replace_intensity_frame) (auto simp: bounded_frames within_bounds_frames)

lemma calculatenext_intensity_bounded:
  assumes "bounded s"
  shows "bounded (snd (calculatenext_intensity s))
         \<and> within_bounds (snd (calculatenext_intensity s)) = within_bounds s"
proof (cases rule: calculatenext_intensity_cases[of s])
  case (raise_decide e)
  then show ?thesis using assms by simp
next
  case (raise_record r s1 e)
  then show ?thesis
    using assms decide_reversal_bounded[OF raise_record(1)]
    by (simp add: record_reversal_raised_bounded)
next
  case (raise_step r s1 s2 e)
  then show ?thesis
    using assms decide_reversal_bounded[OF raise_step(1)]
      record_reversal_bounded[OF raise_step(2)]
    by (simp add: check_finished_bounded)
next
  case (raise_change r s1 s2 s4 e)
  have "bounded (check_finished s2)" "within_bounds (check_finished s2) = within_bounds s"
    using assms decide_reversal_bounded[OF raise_change(1)]
      record_reversal_bounded[OF raise_change(2)]
    by (simp_all add: check_finished_bounded)
  then show ?thesis
    using new_step_size_bounded[OF raise_change(3)] raise_change(5) by simp
next
  case (returns r s1 s2 s4 s5)
  have c: "bounded (check_finished s2)" "within_bounds (check_finished s2) = within_bounds s"
    using assms decide_reversal_bounded[OF returns(1)] record_reversal_bounded[OF returns(2)]
    by (simp_all add: check_finished_bounded)
  then have "bounded s4" "within_bounds s4 = within_bounds s"
    using new_step_size_bounded[OF returns(3)] by simp_all
  then show ?thesis
    using change_intensity_bounded[OF returns(4)] returns(5) by simp
qed

lemma add_response_bounded:
  assumes "bounded s"
  shows "bounded (snd (add_response result intensity s))
         \<and> within_bounds (snd (add_response result intensity s)) = within_bounds s"
proof (cases rule: add_response_cases[of intensity s result])
  case (raise_pop e)
  then show ?thesis using assms by (simp add: bounded_frames within_bounds_frames)
next
  case (calculate s2)
  have "bounded s2" "within_bounds s2 = within_bounds s"
    using replace_intensity_bounded[OF calculate(1)] assms
    by (simp_all add: bounded_frames within_bounds_frames)
  then have "bounded (streak result s2)" "within_bounds (streak result s2) = within_bounds s"
    by (simp_all add: streak_bounded)
  then show ?thesis
    using calculatenext_intensity_bounded[of "streak result s2"] calculate(2) by simp
qed

lemma Staircase_next_bounded:
  assumes "bounded s"
  shows "bounded (snd (Staircase_next s))
         \<and> within_bounds (snd (Staircase_next s)) = within_bounds s"
proof (cases "finished s")
  case True
  then have "snd (Staircase_next s) = s" by (simp add: Staircase_next_def)
  then show ?thesis using assms by simp
next
  case False
  then have "snd (Staircase_next s)
             = s\<lparr>this_trial_n := this_trial_n s + 1,
                 intensities := intensities s @ [next_intensity s]\<rparr>"
    by (simp add: Staircase_next_def)
  then show ?thesis using assms by (simp only: bounded_frames within_bounds_frames simp_thms)
qed

lemma do_call_bounded:
  "bounded s \<Longrightarrow> bounded (do_call s c) \<and> within_bounds (do_call s c) = within_bounds s"
  by (cases c) (simp_all add: Staircase_next_bounded add_response_bounded)

lemma run_bounded:
  "bounded s \<Longrightarrow> bounded (run s calls) \<and> within_bounds (run s calls) = within_bounds s"
  by (induction calls rule: rev_induct) (simp_all add: run_Nil run_snoc do_call_bounded)

lemma init_bounded:
  assumes "Staircase_init a b c d e f g h i j = Inr s"
    and "within_bounds s (start_val s)"
    and "\<forall>x \<in> set (step_sizes s). 0 \<le> x"
    and "step_type s = ''db'' \<or> step_type s = ''log'' \<longrightarrow> 0 \<le> start_val s"
  shows "bounded s"
proof -
  have "next_intensity s = start_val s" "step_size_current s \<in> set (step_sizes s)"
    using assms(1) by (auto simp: Staircase_init_def Let_def split: list.splits)
  then show ?thesis using assms(2-4) by (simp add: bounded_def)
qed

text \<open>
  Claim C5, amended. When the start value lies within the configured bounds, no step size
  is negative, and the start value is not negative for the step types \<^verbatim>\<open>'db'\<close> and \<^verbatim>\<open>'log'\<close>,
  then after every run of pulls and responses the next intensity lies within the configured
  bounds, and so does the intensity a pull returns.
\<close>

theorem C5_within_bounds:
  assumes "Staircase_init start_val' n_reversals' step_sizes' n_trials' n_up' n_down' step_type'
             min_val' max_val' name' = Inr s0"
    and "within_bounds s0 (start_val s0)"
    and "\<forall>x \<in> set (step_sizes s0). 0 \<le> x"
    and "step_type s0 = ''db'' \<or> step_type s0 = ''log'' \<longrightarrow> 0 \<le> start_val s0"
  shows "within_bounds s0 (next_intensity (run s0 calls))
         \<and> (\<forall>x. fst (Staircase_next (run s0 calls)) = Inr x \<longrightarrow> within_bounds s0 x)"
proof -
  have "bounded s0" using assms by (rule init_bounded)
  then have "bounded (run s0 calls)" "within_bounds (run s0 calls) = within_bounds s0"
    using run_bounded by simp_all
  then have nxt: "within_bounds s0 (next_intensity (run s0 calls))"
    by (simp add: bounded_def)
  moreover have "fst (Staircase_next (run s0 calls)) = Inr x \<Longrightarrow> x = next_intensity (run s0 calls)" for x
    by (simp add: Staircase_next_def split: if_splits)
  ultimately show ?thesis by blast
qed

lemma loud_stairs_init:
  "Staircase_init 100 None (Single 4) 0 1 2 ''lin'' None (Some 60) [] = Inr loud_stairs"
  by (simp add: loud_stairs_def Staircase_init_def)

text \<open>
  The claim as first stated fails: the constructor takes the start value as it is, and the
  first pull presents it. With \<^verbatim>\<open>start_val=100\<close> and \<^verbatim>\<open>max_val=60\<close> the first trial is at 100.
\<close>

theorem C5_counterexample:
  "Staircase_init 100 None (Single 4) 0 1 2 ''lin'' None (Some 60) [] = Inr loud_stairs
   \<and> max_val loud_stairs = Some 60
   \<and> fst (Staircase_next (run loud_stairs [])) = Inr 100
   \<and> \<not> within_bounds loud_stairs 100"
  using loud_stairs_init
  by (simp add: loud_stairs_def staircase_defs within_bounds_def)

lemma doctest_stairs_init:
  "Staircase_init 50 (Some 10) (Several [4, 2]) 10 1 1 ''lin'' (Some 10) (Some 60) []
   = Inr doctest_stairs"
  by (simp add: doctest_stairs_def Staircase_init_def)

theorem C5_within_bounds_witness:
  "Staircase_init 50 (Some 10) (Several [4, 2]) 10 1 1 ''lin'' (Some 10) (Some 60) []
     = Inr doctest_stairs
   \<and> within_bounds doctest_stairs (start_val doctest_stairs)
   \<and> step_sizes doctest_stairs = [4, 2]
   \<and> step_type doctest_stairs = ''lin''
   \<and> within_bounds doctest_stairs (next_intensity (run doctest_stairs six_wrong))
   \<and> next_intensity (run doctest_stairs six_wrong) = 60
   \<and> fst (Staircase_next (run doctest_stairs six_wrong)) = Inr 60
   \<and> within_bounds doctest_stairs 60"
proof -
  have h1: "within_bounds doctest_stairs (start_val doctest_stairs)"
    by (simp add: doctest_stairs_def Staircase_init_def within_bounds_def)
  have sizes: "step_sizes doctest_stairs = [4, 2]"
    by (simp add: doctest_stairs_def Staircase_init_def)
  have h2: "\<forall>x \<in> set (step_sizes doctest_stairs). 0 \<le> x"
    by (simp add: sizes)
  have lin: "step_type doctest_stairs = ''lin''"
    by (simp add: doctest_stairs_def Staircase_init_def)
  have h3: "step_type doctest_stairs = ''db'' \<or> step_type doctest_stairs = ''log''
            \<longrightarrow> 0 \<le> start_val doctest_stairs"
    by (simp add: lin)
  have v: "next_intensity (run doctest_stairs six_wrong) = 60"
    by (simp add: doctest_stairs_def six_wrong_def staircase_defs)
  have p: "fst (Staircase_next (run doctest_stairs six_wrong)) = Inr 60"
    by (simp add: doctest_stairs_def six_wrong_def staircase_defs)
  from C5_within_bounds[OF doctest_stairs_init h1 h2 h3, of six_wrong]
  show ?thesis using doctest_stairs_init h1 sizes lin v p by simp
qed

lemma py_slice_from_last_n:
  "1 \<le> m \<Longrightarrow> py_slice_from (- m) xs = last_n (nat m) xs"
  by (simp add: py_slice_from_def last_n_def Let_def max_def nat_diff_distrib')

lemma inv_n_reversals: "inv s \<Longrightarrow> 1 \<le> n_reversals s"
  by (cases "step_sizes s") (simp_all add: inv_def)

lemma inv_finished_reversals:
  "inv s \<Longrightarrow> finished s \<Longrightarrow> n_reversals s \<le> int (length (reversal_intensities s))"
  by (simp add: inv_def stop_rule_def)

lemma threshold_finished:
  assumes "finished s" "1 \<le> n" "1 \<le> n_reversals s"
  shows "threshold n ''geometric'' s
           = Some (np_exp_mean_log (last_n (nat (min n (n_reversals s))) (reversal_intensities s)))"
    and "method \<noteq> ''geometric'' \<Longrightarrow> threshold n method s
           = Some (np_mean (last_n (nat (min n (n_reversals s))) (reversal_intensities s)))"
proof -
  have m: "(if n > n_reversals s then n_reversals s else n) = min n (n_reversals s)"
    by (simp add: min_def)
  have "1 \<le> min n (n_reversals s)" using assms by simp
  then have sl: "py_slice_from (- min n (n_reversals s)) (reversal_intensities s)
                 = last_n (nat (min n (n_reversals s))) (reversal_intensities s)"
    by (rule py_slice_from_last_n)
  show "threshold n ''geometric'' s
           = Some (np_exp_mean_log (last_n (nat (min n (n_reversals s))) (reversal_intensities s)))"
    using assms(1) by (simp add: threshold_def Let_def m sl)
  show "method \<noteq> ''geometric'' \<Longrightarrow> threshold n method s
           = Some (np_mean (last_n (nat (min n (n_reversals s))) (reversal_intensities s)))"
    using assms(1) by (simp add: threshold_def Let_def m sl)
qed

text \<open>
  Claim C3, amended. On a staircase the constructor returned, after any run: while the
  staircase is not finished \<^verbatim>\<open>threshold\<close> returns \<^verbatim>\<open>None\<close>; once it is finished, for \<open>n \<ge> 1\<close>,
  it averages the last \<open>min n n_reversals\<close> recorded reversal intensities (that many are
  recorded), so \<open>n\<close> is clamped to the configured minimum \<^verbatim>\<open>n_reversals\<close> and not to the
  number of reversals recorded; the average is the exponential of the mean of the logarithms
  for \<^verbatim>\<open>'geometric'\<close> and the arithmetic mean for any other method.
\<close>

theorem C3_threshold:
  assumes "Staircase_init start_val' n_reversals' step_sizes' n_trials' n_up' n_down' step_type'
             min_val' max_val' name' = Inr s0"
  shows "(\<not> finished (run s0 calls) \<longrightarrow> threshold n method (run s0 calls) = None)
         \<and> (finished (run s0 calls) \<and> 1 \<le> n \<longrightarrow>
              nat (min n (n_reversals (run s0 calls)))
                \<le> length (reversal_intensities (run s0 calls))
              \<and> threshold n ''geometric'' (run s0 calls)
                  = Some (np_exp_mean_log
                            (last_n (nat (min n (n_reversals (run s0 calls))))
                               (reversal_intensities (run s0 calls))))
              \<and> (method \<noteq> ''geometric'' \<longrightarrow>
                    threshold n method (run s0 calls)
                      = Some (np_mean
                                (last_n (nat (min n (n_reversals (run s0 calls))))
                                   (reversal_intensities (run s0 calls))))))"
proof (intro conjI impI)
  assume "\<not> finished (run s0 calls)"
  then show "threshold n method (run s0 calls) = None" by (simp add: threshold_def)
next
  assume f: "finished (run s0 calls) \<and> 1 \<le> n"
  have i: "inv (run s0 calls)" using run_inv[OF init_inv[OF assms]] .
  have r: "1 \<le> n_reversals (run s0 calls)" using i by (rule inv_n_reversals)
  have "n_reversals (run s0 calls) \<le> int (length (reversal_intensities (run s0 calls)))"
    using i f by (simp add: inv_finished_reversals)
  then show "nat (min n (n_reversals (run s0 calls)))
               \<le> length (reversal_intensities (run s0 calls))"
    by linarith
  show "threshold n ''geometric'' (run s0 calls)
          = Some (np_exp_mean_log
                    (last_n (nat (min n (n_reversals (run s0 calls))))
                       (reversal_intensities (run s0 calls))))"
    using f r by (simp add: threshold_finished(1))
  assume "method \<noteq> ''geometric''"
  then show "threshold n method (run s0 calls)
          = Some (np_mean
                    (last_n (nat (min n (n_reversals (run s0 calls))))
                       (reversal_intensities (run s0 calls))))"
    using f r by (simp add: threshold_finished(2))
qed

lemma example_finished_state:
  "finished example_finished" "n_reversals example_finished = 1"
  "reversal_intensities example_finished = [10, 11, 10, 11]"
  by (simp_all add: example_finished_def example_stairs_def example_calls_def staircase_defs)

text \<open>
  The claim as first stated fails: with \<^verbatim>\<open>n_reversals = 1\<close> and four reversals recorded,
  \<^verbatim>\<open>threshold(3, 'arithmetic')\<close> is the last reversal alone, 11, and not the mean of the last
  three, 32/3.
\<close>

theorem C3_counterexample:
  "finished example_finished
   \<and> reversal_intensities example_finished = [10, 11, 10, 11]
   \<and> threshold 3 ''arithmetic'' example_finished = Some (Num 11)
   \<and> threshold_spec 3 ''arithmetic'' example_finished = Some (Num (32 / 3))
   \<and> threshold 3 ''arithmetic'' example_finished \<noteq> threshold_spec 3 ''arithmetic'' example_finished"
  by (simp add: threshold_def threshold_spec_def example_finished_state py_slice_from_def
      last_n_def np_mean_def Let_def)

theorem C3_threshold_witness:
  "Staircase_init 10 None (Single 1) 4 1 1 ''lin'' None None [] = Inr example_stairs
   \<and> \<not> finished (run example_stairs example_calls)
   \<and> threshold 3 ''geometric'' (run example_stairs example_calls) = None
   \<and> finished (run example_stairs (example_calls @ [Add_response True None]))
   \<and> n_reversals (run example_stairs (example_calls @ [Add_response True None])) = 1
   \<and> reversal_intensities (run example_stairs (example_calls @ [Add_response True None]))
       = [10, 11, 10, 11]
   \<and> threshold 3 ''geometric'' (run example_stairs (example_calls @ [Add_response True None]))
       = Some (np_exp_mean_log [11])
   \<and> threshold 3 ''arithmetic'' (run example_stairs (example_calls @ [Add_response True None]))
       = Some (np_mean [11])
   \<and> np_mean [11] = Num 11"
proof -
  have nf: "\<not> finished (run example_stairs example_calls)"
    by (simp add: example_stairs_def example_calls_def staircase_defs)
  have st: "finished (run example_stairs (example_calls @ [Add_response True None]))"
    "n_reversals (run example_stairs (example_calls @ [Add_response True None])) = 1"
    "reversal_intensities (run example_stairs (example_calls @ [Add_response True None]))
       = [10, 11, 10, 11]"
    using example_finished_state by (simp_all add: example_finished_def)
  have ne: "''arithmetic'' \<noteq> ''geometric''" by simp
  from C3_threshold[OF example_stairs_init, of example_calls 3 "''geometric''"]
    C3_threshold[OF example_stairs_init, of "example_calls @ [Add_response True None]" 3
      "''arithmetic''"]
  show ?thesis
    using nf st ne example_stairs_init by (simp add: last_n_def np_mean_def)
qed

text \<open>
  The doctest of the class: with a simulated threshold of 30 the loop ends after seventeen
  trials with the reversals the docstring prints, and the threshold over the last six of
  them is the geometric mean of 28 and 30 (the docstring prints 28.982753492378876).
\<close>

lemma doctest_trace:
  "\<exists>s. simulated_run 18 30 doctest_stairs = Some s
       \<and> finished s
       \<and> intensities s = [50, 46, 42, 38, 34, 30, 26, 28, 30, 28, 30, 28, 30, 28, 30, 28, 30]
       \<and> reversal_intensities s = [26, 30, 28, 30, 28, 30, 28, 30, 28, 30]
       \<and> threshold 6 ''geometric'' s = Some (np_exp_mean_log [28, 30, 28, 30, 28, 30])"
  by (simp add: doctest_stairs_def staircase_defs simulate_response_def eval_nat_numeral
      threshold_def py_slice_from_def)

lemma doctest_threshold: "np_exp_mean_log [28, 30, 28, 30, 28, 30] = Num (sqrt 840)"
proof -
  have l: "ln 28 + ln 30 = ln (840::real)" using ln_mult[of "28::real" 30] by simp
  have "sum_list (map ln [28, 30, 28, 30, 28, 30 :: real]) / real (length [28, 30, 28, 30, 28, 30 :: real])
        = (ln 28 + ln 30) / 2"
    by simp
  then have m: "sum_list (map ln [28, 30, 28, 30, 28, 30 :: real])
                  / real (length [28, 30, 28, 30, 28, 30 :: real]) = ln 840 / 2"
    unfolding l .
  have e: "exp (ln (840::real) / 2) = sqrt 840"
  proof -
    have "exp (ln (840::real) / 2) ^ 2 = 840"
      by (simp add: exp_double [symmetric])
    moreover have "0 \<le> exp (ln (840::real) / 2)" by simp
    ultimately show ?thesis by (metis real_sqrt_abs abs_of_nonneg)
  qed
  have "np_exp_mean_log [28, 30, 28, 30, 28, 30]
        = Num (exp (sum_list (map ln [28, 30, 28, 30, 28, 30 :: real])
                      / real (length [28, 30, 28, 30, 28, 30 :: real])))"
    unfolding np_exp_mean_log_def by simp
  then show ?thesis unfolding m e .
qed

text \<open>
  The two side conditions of the amended claim C5 are needed: a multiplicative step on a
  negative intensity moves it the other way, below a lower bound that the increment does
  not clamp to, and so does a negative step size.
\<close>

lemma negative_intensity_escapes:
  "fst (Staircase_next (run (projr (Staircase_init (- 2) None (Single 1) 5 1 2 ''log''
                                      (Some (- 5)) None []))
                            [Next, Add_response False None]))
   = Inr (- 20)"
  by (simp add: staircase_defs)

lemma negative_step_escapes:
  "fst (Staircase_next (run (projr (Staircase_init 20 (Some 5) (Single (- 20)) 0 1 2 ''lin''
                                      (Some 10) (Some 60) []))
                            [Next, Add_response False None, Next, Add_response False None]))
   = Inr (- 20)"
  by (simp add: staircase_defs)

section \<open>Properties of the trial sequence\<close>

lemma Trialsequence_next_effect:
  "trials (snd (Trialsequence_next s)) = trials s"
  "conditions (snd (Trialsequence_next s)) = conditions s"
  "this_n (snd (Trialsequence_next s)) = this_n s + 1"
  "n_remaining (snd (Trialsequence_next s)) = n_remaining s - 1"
  "n_trials_ts (snd (Trialsequence_next s)) = n_trials_ts s"
  "finished_ts (snd (Trialsequence_next s))
     = (finished_ts s \<or> int (length (trials s)) \<le> this_n s + 1)"
  by (simp_all add: Trialsequence_next_def Let_def split: sum.splits)

lemma condition_at_cong:
  "trials s' = trials s \<Longrightarrow> conditions s' = conditions s \<Longrightarrow> condition_at s' k = condition_at s k"
  by (simp add: condition_at_def split: sum.splits pyval.splits)

lemma Trialsequence_next_outcome:
  "fst (Trialsequence_next s)
     = (if finished_ts s \<or> int (length (trials s)) \<le> this_n s + 1 then Inl StopIteration
        else condition_at s (this_n s + 1))"
proof -
  let ?s1 = "s\<lparr>this_trial_n_ts := this_trial_n_ts s + 1, this_n := this_n s + 1,
               n_remaining := n_remaining s - 1\<rparr>"
  let ?s2 = "if this_trial_n_ts ?s1 \<ge> n_conds ?s1 \<and> n_reps ?s1 > 1
             then ?s1\<lparr>this_trial_n_ts := 0, this_rep_n := this_rep_n ?s1 + 1\<rparr> else ?s1"
  let ?s3 = "if this_n ?s2 \<ge> int (length (trials ?s2))
             then ?s2\<lparr>this_trial := None, finished_ts := True\<rparr> else ?s2"
  have f: "trials ?s3 = trials s" "conditions ?s3 = conditions s" "this_n ?s3 = this_n s + 1"
    "finished_ts ?s3 = (finished_ts s \<or> int (length (trials s)) \<le> this_n s + 1)"
    by simp_all
  have c: "condition_at ?s3 (this_n ?s3) = condition_at s (this_n s + 1)"
    using condition_at_cong[OF f(1) f(2)] f(3) by simp
  have "fst (Trialsequence_next s)
        = (if finished_ts ?s3 then Inl StopIteration else condition_at ?s3 (this_n ?s3))"
    unfolding Trialsequence_next_def Let_def by (simp split: sum.splits)
  then show ?thesis unfolding c f(4) .
qed

lemma advance_effect:
  "trials (advance k s) = trials s"
  "conditions (advance k s) = conditions s"
  "this_n (advance k s) = this_n s + int k"
  "n_remaining (advance k s) = n_remaining s - int k"
  "n_trials_ts (advance k s) = n_trials_ts s"
  by (induction k) (simp_all add: Trialsequence_next_effect)

lemma advance_finished:
  assumes "\<not> finished_ts s" "this_n s = - 1"
  shows "finished_ts (advance k s) = (length (trials s) < k)"
proof (induction k)
  case 0
  then show ?case using assms by simp
next
  case (Suc k)
  then show ?case
    using assms(2) by (auto simp: Trialsequence_next_effect advance_effect)
qed

lemma new_trialsequence_fresh:
  "\<not> finished_ts (new_trialsequence nm r c n t)"
  "this_n (new_trialsequence nm r c n t) = - 1"
  "trials (new_trialsequence nm r c n t) = t"
  "conditions (new_trialsequence nm r c n t) = c"
  "n_trials_ts (new_trialsequence nm r c n t) = int (length t)"
  "n_remaining (new_trialsequence nm r c n t) = int (length t)"
  "n_conds (new_trialsequence nm r c n t) = n"
  "n_reps (new_trialsequence nm r c n t) = r"
  by (simp_all add: new_trialsequence_def)

lemma Trialsequence_init_new:
  assumes "Trialsequence_init conditions' n_reps' trials' name' draws = Some (Inr s)"
  shows "\<exists>c t. s = new_trialsequence name' n_reps' c
                     (int (length (conditions_of conditions'))) t"
  using assms
  by (auto simp: Trialsequence_init_def Let_def split: if_splits option.splits sum.splits)

lemma Trialsequence_init_fresh:
  assumes "Trialsequence_init conditions' n_reps' trials' name' draws = Some (Inr s)"
  shows "\<not> finished_ts s" "this_n s = - 1" "n_trials_ts s = int (length (trials s))"
    "n_remaining s = int (length (trials s))"
  using Trialsequence_init_new[OF assms] by (auto simp: new_trialsequence_fresh)

lemma condition_at_index:
  assumes "k < length (trials s)" "trials s ! k = PyInt i" "0 \<le> i" "i < int (length (conditions s))"
  shows "condition_at s (int k) = Inr (conditions s ! nat i)"
  using assms by (simp add: condition_at_def py_index_def)

text \<open>
  Claim C7, amended. For every trial sequence the constructor returns, \<^verbatim>\<open>n_trials\<close> is the
  length of \<^verbatim>\<open>trials\<close>, and after \<open>k\<close> pulls: for \<open>k\<close> below \<^verbatim>\<open>n_trials\<close> the next pull does
  what \<^verbatim>\<open>conditions[trials[k]]\<close> does, so it returns that condition whenever the entry
  \<^verbatim>\<open>trials[k]\<close> is an index into the conditions; from \<open>k = n_trials\<close> on every pull raises
  \<^verbatim>\<open>StopIteration\<close> and nothing else. The counter \<^verbatim>\<open>this_n\<close> only grows, \<^verbatim>\<open>finished\<close> holds
  from the pull after the last trial on, and \<^verbatim>\<open>trials\<close> is never changed.
\<close>

theorem C7_iteration:
  assumes "Trialsequence_init conditions' n_reps' trials' name' draws = Some (Inr s0)"
  shows "n_trials_ts s0 = int (length (trials s0))
         \<and> (k < length (trials s0) \<longrightarrow>
               fst (Trialsequence_next (advance k s0)) = condition_at s0 (int k))
         \<and> (k < length (trials s0) \<and> trials s0 ! k = PyInt i
              \<and> 0 \<le> i \<and> i < int (length (conditions s0)) \<longrightarrow>
               fst (Trialsequence_next (advance k s0)) = Inr (conditions s0 ! nat i))
         \<and> (length (trials s0) \<le> k \<longrightarrow>
               fst (Trialsequence_next (advance k s0)) = Inl StopIteration)
         \<and> this_n (advance k s0) = int k - 1
         \<and> finished_ts (advance k s0) = (length (trials s0) < k)
         \<and> trials (advance k s0) = trials s0"
proof -
  note fresh = Trialsequence_init_fresh[OF assms]
  have fin: "finished_ts (advance k s0) = (length (trials s0) < k)"
    using fresh(1,2) by (rule advance_finished)
  have n: "this_n (advance k s0) = int k - 1"
    using fresh(2) by (simp add: advance_effect)
  have c: "condition_at (advance k s0) (int k) = condition_at s0 (int k)"
    by (rule condition_at_cong) (simp_all add: advance_effect)
  have tr: "trials (advance k s0) = trials s0" by (simp add: advance_effect)
  have "fst (Trialsequence_next (advance k s0))
        = (if finished_ts (advance k s0)
               \<or> int (length (trials (advance k s0))) \<le> this_n (advance k s0) + 1
           then Inl StopIteration
           else condition_at (advance k s0) (this_n (advance k s0) + 1))"
    by (rule Trialsequence_next_outcome)
  then have out: "fst (Trialsequence_next (advance k s0))
             = (if length (trials s0) \<le> k then Inl StopIteration else condition_at s0 (int k))"
    unfolding fin n tr using c by auto
  show ?thesis
    using out fin n fresh(3) tr condition_at_index[of k s0 i]
    by auto
qed

lemma get_future_trial_state: "snd (get_future_trial n s) = s"
  by (simp add: get_future_trial_def split: sum.splits)

lemma get_future_trial_value:
  assumes "n_remaining s = int (length (trials s)) - this_n s - 1"
  shows "fst (get_future_trial n s)
         = (if 0 \<le> this_n s + n \<and> this_n s + n < int (length (trials s))
            then Inr (Some (trials s ! nat (this_n s + n))) else Inr None)"
  using assms by (auto simp: get_future_trial_def py_index_def)

lemmas trialsequence_defs = Trialsequence_init_def conditions_of_def create_simple_sequence_def
  new_trialsequence_def Trialsequence_next_def condition_at_def py_index_def
  get_future_trial_def Let_def

lemma stray_sequence_init:
  "Trialsequence_init (Count 2) 1 [PyInt 0, PyInt 5] [] [] = Some (Inr stray_sequence)"
  by (simp add: stray_sequence_def Trialsequence_init_def Let_def)

text \<open>
  The claim as first stated fails: an explicit trial list is taken unchecked, and the
  second pull on \<^verbatim>\<open>Trialsequence(conditions=2, trials=[0, 5])\<close> raises \<^verbatim>\<open>IndexError\<close>.
\<close>

theorem C7_counterexample:
  "Trialsequence_init (Count 2) 1 [PyInt 0, PyInt 5] [] [] = Some (Inr stray_sequence)
   \<and> n_trials_ts stray_sequence = 2
   \<and> fst (Trialsequence_next (advance 0 stray_sequence)) = Inr (PyInt 0)
   \<and> fst (Trialsequence_next (advance 1 stray_sequence)) = Inl IndexError"
  using stray_sequence_init
  by (simp add: stray_sequence_def trialsequence_defs upto.simps)

lemma two_blocks_init:
  "Trialsequence_init (Count 3) 2 [] [] three_draws = Some (Inr two_blocks)"
  by (simp add: two_blocks_def three_draws_def trialsequence_defs upto.simps eval_nat_numeral)

lemma two_blocks_state:
  "trials two_blocks = [PyInt 2, PyInt 0, PyInt 1, PyInt 0, PyInt 2, PyInt 1]"
  "conditions two_blocks = [PyInt 0, PyInt 2, PyInt 1]"
  "n_conds two_blocks = 3" "n_reps two_blocks = 2"
  by (simp_all add: two_blocks_def three_draws_def trialsequence_defs upto.simps eval_nat_numeral)

theorem C7_iteration_witness:
  "Trialsequence_init (Count 3) 2 [] [] three_draws = Some (Inr two_blocks)
   \<and> n_trials_ts two_blocks = 6
   \<and> trials two_blocks = [PyInt 2, PyInt 0, PyInt 1, PyInt 0, PyInt 2, PyInt 1]
   \<and> conditions two_blocks = [PyInt 0, PyInt 2, PyInt 1]
   \<and> fst (Trialsequence_next (advance 0 two_blocks)) = Inr (PyInt 1)
   \<and> fst (Trialsequence_next (advance 5 two_blocks)) = Inr (PyInt 2)
   \<and> fst (Trialsequence_next (advance 6 two_blocks)) = Inl StopIteration
   \<and> fst (Trialsequence_next (advance 9 two_blocks)) = Inl StopIteration
   \<and> this_n (advance 9 two_blocks) = 8
   \<and> finished_ts (advance 9 two_blocks)"
proof -
  note st = two_blocks_state
  from C7_iteration[OF two_blocks_init, of 0 2] C7_iteration[OF two_blocks_init, of 5 1]
    C7_iteration[OF two_blocks_init, of 6] C7_iteration[OF two_blocks_init, of 9]
  show ?thesis using two_blocks_init by (simp add: st condition_at_def py_index_def)
qed

lemma one_block_init:
  "Trialsequence_init (Count 3) 1 [] [] [[PyInt 2, PyInt 0, PyInt 1]] = Some (Inr one_block)"
  by (simp add: one_block_def trialsequence_defs upto.simps)

lemma one_block_state:
  "trials one_block = [PyInt 2, PyInt 0, PyInt 1]"
  "conditions one_block = [PyInt 2, PyInt 0, PyInt 1]"
  "this_n one_block = - 1" "n_remaining one_block = 3"
  by (simp_all add: one_block_def trialsequence_defs upto.simps)

text \<open>
  Claim C8 fails on the code. \<^verbatim>\<open>get_future_trial\<close> returns the entry of \<^verbatim>\<open>trials\<close>, where
  \<^verbatim>\<open>__next__\<close> returns \<^verbatim>\<open>conditions[...]\<close> of it. For \<^verbatim>\<open>Trialsequence(conditions=3)\<close> with the
  shuffle \<^verbatim>\<open>[2, 0, 1]\<close> the lookahead by one says 2 and the pull presents 1; for conditions
  given as dictionaries the lookahead says 0 and the pull presents the dictionary.
\<close>

theorem C8_lookahead_disagrees:
  "Trialsequence_init (Count 3) 1 [] [] [[PyInt 2, PyInt 0, PyInt 1]] = Some (Inr one_block)
   \<and> get_future_trial 1 one_block = (Inr (Some (PyInt 2)), one_block)
   \<and> fst (Trialsequence_next one_block) = Inr (PyInt 1)
   \<and> Trialsequence_init (Listed tones) 1 [PyInt 0, PyInt 1] [] []
       = Some (Inr listed_tone_sequence)
   \<and> get_future_trial 1 listed_tone_sequence = (Inr (Some (PyInt 0)), listed_tone_sequence)
   \<and> fst (Trialsequence_next listed_tone_sequence) = Inr (PyObj [(''freq'', 500)])"
proof -
  have a: "get_future_trial 1 one_block = (Inr (Some (PyInt 2)), one_block)"
    by (simp add: get_future_trial_def one_block_state py_index_def)
  have b: "fst (Trialsequence_next one_block) = Inr (PyInt 1)"
    by (simp add: Trialsequence_next_outcome Trialsequence_init_fresh[OF one_block_init]
        one_block_state condition_at_def py_index_def)
  have c: "Trialsequence_init (Listed tones) 1 [PyInt 0, PyInt 1] [] []
           = Some (Inr listed_tone_sequence)"
    by (simp add: listed_tone_sequence_def trialsequence_defs)
  have st: "trials listed_tone_sequence = [PyInt 0, PyInt 1]"
    "conditions listed_tone_sequence = tones"
    "this_n listed_tone_sequence = - 1" "n_remaining listed_tone_sequence = 2"
    by (simp_all add: listed_tone_sequence_def trialsequence_defs)
  have d: "get_future_trial 1 listed_tone_sequence = (Inr (Some (PyInt 0)), listed_tone_sequence)"
    by (simp add: get_future_trial_def st py_index_def)
  have e: "fst (Trialsequence_next listed_tone_sequence) = Inr (PyObj [(''freq'', 500)])"
    by (simp add: Trialsequence_next_outcome Trialsequence_init_fresh[OF c]
        st condition_at_def py_index_def tones_def)
  show ?thesis using one_block_init a b c d e by simp
qed

text \<open>
  Claim C2 fails on the code. \<^verbatim>\<open>_create_simple_sequence\<close> shuffles \<^verbatim>\<open>self.conditions\<close>
  itself and extends \<^verbatim>\<open>trials\<close> with its entries: for conditions given as a list of
  dictionaries the trials hold the dictionaries, no condition index appears in them, and
  the first pull raises \<^verbatim>\<open>TypeError\<close>. And the default list of \<^verbatim>\<open>trials\<close> is shared: a
  second sequence constructed without a trial list has the three trials of the first for
  its two conditions and one repetition.
\<close>

theorem C2_trials_hold_conditions:
  "Trialsequence_init (Listed tones) 1 [] [] [rev tones] = Some (Inr tone_sequence)
   \<and> n_conds tone_sequence = 2
   \<and> n_reps tone_sequence = 1
   \<and> trials tone_sequence = [PyObj [(''freq'', 1000)], PyObj [(''freq'', 500)]]
   \<and> count_list (trials tone_sequence) (PyInt 0) = 0
   \<and> count_list (trials tone_sequence) (PyInt 1) = 0
   \<and> fst (Trialsequence_next tone_sequence) = Inl TypeError
   \<and> Trialsequence_init (Count 2) 1 (trials one_block) [] [] = Some (Inr second_default)
   \<and> n_conds second_default = 2
   \<and> n_reps second_default = 1
   \<and> n_trials_ts second_default = 3
   \<and> trials second_default = [PyInt 2, PyInt 0, PyInt 1]"
proof -
  have a: "Trialsequence_init (Listed tones) 1 [] [] [rev tones] = Some (Inr tone_sequence)"
    by (simp add: tone_sequence_def tones_def trialsequence_defs)
  have st: "n_conds tone_sequence = 2" "n_reps tone_sequence = 1"
    "trials tone_sequence = [PyObj [(''freq'', 1000)], PyObj [(''freq'', 500)]]"
    "conditions tone_sequence = [PyObj [(''freq'', 1000)], PyObj [(''freq'', 500)]]"
    by (simp_all add: tone_sequence_def tones_def trialsequence_defs)
  have b: "fst (Trialsequence_next tone_sequence) = Inl TypeError"
    by (simp add: Trialsequence_next_outcome Trialsequence_init_fresh[OF a]
        st condition_at_def py_index_def)
  have c: "Trialsequence_init (Count 2) 1 (trials one_block) [] [] = Some (Inr second_default)"
    by (simp add: second_default_def one_block_state Trialsequence_init_def Let_def)
  have d: "n_conds second_default = 2" "n_reps second_default = 1"
    "n_trials_ts second_default = 3" "trials second_default = [PyInt 2, PyInt 0, PyInt 1]"
    by (simp_all add: second_default_def one_block_state trialsequence_defs upto.simps)
  show ?thesis using a st b c d by simp
qed

lemma reshuffle_Inr:
  "reshuffle t p ds = Some (Inr (p', ds')) \<Longrightarrow>
     t \<noteq> [] \<and> p' \<noteq> [] \<and> last t \<noteq> hd p' \<and> p' \<in> set (p # ds) \<and> set ds' \<subseteq> set ds"
proof (induction t p ds rule: reshuffle.induct)
  case (1 t p ds)
  show ?case
  proof (cases "t = [] \<or> p = []")
    case True
    then show ?thesis using "1.prems" by simp
  next
    case ne: False
    show ?thesis
    proof (cases "last t = hd p")
      case False
      then show ?thesis using "1.prems" ne by auto
    next
      case eq: True
      show ?thesis
      proof (cases ds)
        case Nil
        then show ?thesis using "1.prems" ne eq by simp
      next
        case (Cons d ds0)
        then have "reshuffle t d ds0 = Some (Inr (p', ds'))"
          using "1.prems" ne eq by simp
        then have "t \<noteq> [] \<and> p' \<noteq> [] \<and> last t \<noteq> hd p' \<and> p' \<in> set (d # ds0)
                   \<and> set ds' \<subseteq> set ds0"
          using "1.IH"[OF ne eq Cons] by blast
        then show ?thesis using Cons by auto
      qed
    qed
  qed
qed

lemma boundary_append:
  assumes len: "length t = rep * n" and rep: "0 < rep" and p: "length p = n" "p \<noteq> []"
    and t: "t \<noteq> []" and diff: "last t \<noteq> hd p"
    and old: "\<forall>j. 0 < j \<and> j * n < length t \<longrightarrow> t ! (j * n - 1) \<noteq> t ! (j * n)"
  shows "\<forall>j. 0 < j \<and> j * n < length (t @ p) \<longrightarrow> (t @ p) ! (j * n - 1) \<noteq> (t @ p) ! (j * n)"
proof (intro allI impI)
  fix j assume j: "0 < j \<and> j * n < length (t @ p)"
  have n: "0 < n" using p by auto
  have "j * n < (rep + 1) * n" using j len p by simp
  then have "j < rep + 1" using n by (metis mult_less_cancel2)
  then have jr: "j \<le> rep" by simp
  show "(t @ p) ! (j * n - 1) \<noteq> (t @ p) ! (j * n)"
  proof (cases "j = rep")
    case True
    have a: "(t @ p) ! (j * n) = hd p"
      using True len p by (simp add: nth_append hd_conv_nth)
    have "j * n - 1 < length t" using True len t by (cases t) auto
    moreover have "j * n - 1 = length t - 1" using True len by simp
    ultimately have b: "(t @ p) ! (j * n - 1) = last t"
      using t by (simp add: nth_append last_conv_nth)
    show ?thesis using a b diff by simp
  next
    case False
    then have "j < rep" using jr by simp
    then have lt: "j * n < length t" using len n by simp
    then have lt1: "j * n - 1 < length t" by simp
    have "t ! (j * n - 1) \<noteq> t ! (j * n)" using old j lt by blast
    then show ?thesis using lt lt1 by (simp add: nth_append)
  qed
qed

lemma repetitions_blocks:
  assumes "repetitions rep k p t ds = Some (Inr (p', t'))"
    and "\<forall>d \<in> set ds. length d = n"
    and "length t = rep * n"
    and "\<forall>j. 0 < j \<and> j * n < length t \<longrightarrow> t ! (j * n - 1) \<noteq> t ! (j * n)"
  shows "length t' = (rep + k) * n
         \<and> (\<forall>j. 0 < j \<and> j * n < length t' \<longrightarrow> t' ! (j * n - 1) \<noteq> t' ! (j * n))"
  using assms
proof (induction rep k p t ds rule: repetitions.induct)
  case (1 rep permute trials' draws)
  then show ?case by simp
next
  case (2 rep k permute trials')
  then show ?case by simp
next
  case (3 rep k permute trials' d ds)
  have dn: "length d = n" using "3.prems"(2) by simp
  have dsn: "\<forall>x \<in> set ds. length x = n" using "3.prems"(2) by simp
  show ?case
  proof (cases "rep = 0")
    case True
    then have call: "repetitions (Suc rep) k d (trials' @ d) ds = Some (Inr (p', t'))"
      using "3.prems"(1) by simp
    have e: "trials' = []" using True "3.prems"(3) by simp
    have len: "length (trials' @ d) = Suc rep * n" using e dn True by simp
    have b: "\<forall>j. 0 < j \<and> j * n < length (trials' @ d) \<longrightarrow>
               (trials' @ d) ! (j * n - 1) \<noteq> (trials' @ d) ! (j * n)"
    proof (intro allI impI)
      fix j assume a: "0 < j \<and> j * n < length (trials' @ d)"
      have "n \<le> j * n" using a by (cases j) simp_all
      moreover have "j * n < n" using a e dn by auto
      ultimately have False by simp
      then show "(trials' @ d) ! (j * n - 1) \<noteq> (trials' @ d) ! (j * n)" by simp
    qed
    from "3.IH"(1)[OF True call dsn len b] show ?thesis by simp
  next
    case False
    then obtain p1 ds1 where r: "reshuffle trials' d ds = Some (Inr (p1, ds1))"
      and call: "repetitions (Suc rep) k p1 (trials' @ p1) ds1 = Some (Inr (p', t'))"
      using "3.prems"(1) by (auto split: option.splits sum.splits)
    note f = reshuffle_Inr[OF r]
    have p1n: "length p1 = n" using f dn dsn by auto
    have ds1n: "\<forall>x \<in> set ds1. length x = n" using f dsn by auto
    have len: "length (trials' @ p1) = Suc rep * n" using "3.prems"(3) p1n by simp
    have b: "\<forall>j. 0 < j \<and> j * n < length (trials' @ p1) \<longrightarrow>
               (trials' @ p1) ! (j * n - 1) \<noteq> (trials' @ p1) ! (j * n)"
      using boundary_append[OF "3.prems"(3) _ p1n _ _ _ "3.prems"(4)] False f by blast
    from "3.IH"(2)[OF False r _ _ call ds1n len b] show ?thesis by simp
  qed
qed

lemma repetitions_nonempty:
  assumes "repetitions rep k p t ds = Some (Inr (p', t'))"
    and "\<forall>d \<in> set ds. length d = n"
    and "2 \<le> rep + k" and "0 < k"
  shows "0 < n"
  using assms
proof (induction rep k p t ds rule: repetitions.induct)
  case (1 rep permute trials' draws)
  then show ?case by simp
next
  case (2 rep k permute trials')
  then show ?case by simp
next
  case (3 rep k permute trials' d ds)
  have dn: "length d = n" using "3.prems"(2) by simp
  have dsn: "\<forall>x \<in> set ds. length x = n" using "3.prems"(2) by simp
  show ?case
  proof (cases "rep = 0")
    case True
    then have call: "repetitions (Suc rep) k d (trials' @ d) ds = Some (Inr (p', t'))"
      using "3.prems"(1) by simp
    have "2 \<le> Suc rep + k" "0 < k" using True "3.prems"(3) by simp_all
    with "3.IH"(1)[OF True call dsn] show ?thesis by simp
  next
    case False
    then obtain p1 ds1 where r: "reshuffle trials' d ds = Some (Inr (p1, ds1))"
      using "3.prems"(1) by (auto split: option.splits sum.splits)
    note f = reshuffle_Inr[OF r]
    have "length p1 = n" using f dn dsn by auto
    then show ?thesis using f by auto
  qed
qed

lemma Trialsequence_init_generated:
  assumes "Trialsequence_init conditions' n_reps' [] name' draws = Some (Inr s)"
  shows "\<exists>c. repetitions 0 (nat n_reps') (conditions_of conditions') [] draws
               = Some (Inr (c, trials s))"
    and "n_reps s = n_reps'" and "n_conds s = int (length (conditions_of conditions'))"
  using assms
  by (auto simp: Trialsequence_init_def create_simple_sequence_def Let_def
      new_trialsequence_fresh split: option.splits sum.splits)

text \<open>
  Claim C4. For every trial sequence the constructor returns after generating the trials
  (the list bound to \<^verbatim>\<open>trials\<close> is empty), with every shuffle a permutation: the trials
  are \<^verbatim>\<open>n_reps\<close> blocks of \<^verbatim>\<open>n_conds\<close> entries, and at each boundary \<open>k\<close> (from 1 to
  \<^verbatim>\<open>n_reps - 1\<close>) the last entry of one block differs from the first entry of the next.
\<close>

theorem C4_block_boundaries:
  assumes "Trialsequence_init conditions' n_reps' [] name' draws = Some (Inr s)"
    and "\<forall>d \<in> set draws. mset d = mset (conditions_of conditions')"
    and "0 < k" and "int k < n_reps s"
  shows "length (trials s) = nat (n_reps s) * nat (n_conds s)
         \<and> k * nat (n_conds s) < length (trials s)
         \<and> trials s ! (k * nat (n_conds s) - 1) \<noteq> trials s ! (k * nat (n_conds s))"
proof -
  let ?n = "length (conditions_of conditions')"
  obtain c where gen: "repetitions 0 (nat n_reps') (conditions_of conditions') [] draws
                       = Some (Inr (c, trials s))"
    using Trialsequence_init_generated(1)[OF assms(1)] by blast
  have r: "n_reps s = n_reps'" and n: "n_conds s = int ?n"
    using Trialsequence_init_generated(2,3)[OF assms(1)] by simp_all
  have len: "\<forall>d \<in> set draws. length d = ?n"
    using assms(2) by (metis mset_eq_length)
  have b: "length (trials s) = (0 + nat n_reps') * ?n
           \<and> (\<forall>j. 0 < j \<and> j * ?n < length (trials s) \<longrightarrow>
                 trials s ! (j * ?n - 1) \<noteq> trials s ! (j * ?n))"
    using repetitions_blocks[OF gen len] by simp
  have k: "k < nat n_reps'" using assms(4) r by simp
  then have "2 \<le> 0 + nat n_reps'" "0 < nat n_reps'" using assms(3) by simp_all
  then have pos: "0 < ?n" using repetitions_nonempty[OF gen len] by blast
  have "k * ?n < nat n_reps' * ?n" using k pos by simp
  then show ?thesis using b assms(3) r n by simp
qed

theorem C4_block_boundaries_witness:
  "Trialsequence_init (Count 3) 2 [] [] three_draws = Some (Inr two_blocks)
   \<and> (conditions_of (Count 3) :: unit pyval list) = [PyInt 0, PyInt 1, PyInt 2]
   \<and> three_draws = [[PyInt 2, PyInt 0, PyInt 1], [PyInt 1, PyInt 2, PyInt 0],
                     [PyInt 0, PyInt 2, PyInt 1]]
   \<and> n_reps two_blocks = 2
   \<and> n_conds two_blocks = 3
   \<and> length (trials two_blocks) = 6
   \<and> trials two_blocks ! 2 = PyInt 1
   \<and> trials two_blocks ! 3 = PyInt 0
   \<and> trials two_blocks ! (1 * nat (n_conds two_blocks) - 1)
       \<noteq> trials two_blocks ! (1 * nat (n_conds two_blocks))"
proof -
  have c: "(conditions_of (Count 3) :: unit pyval list) = [PyInt 0, PyInt 1, PyInt 2]"
    by (simp add: conditions_of_def upto.simps)
  have d: "\<forall>d \<in> set three_draws. mset d = mset (conditions_of (Count 3))"
    by (simp add: c three_draws_def)
  have k: "0 < (1::nat)" "int 1 < n_reps two_blocks"
    by (simp_all add: two_blocks_state)
  from C4_block_boundaries[OF two_blocks_init d k]
  show ?thesis using two_blocks_init c by (simp add: two_blocks_state three_draws_def)
qed

lemma spaced_zeros: "spaced z (replicate n (PyInt 0) @ ys) = spaced (z + n) ys"
  by (induction n arbitrary: z) simp_all

lemma spaced_block: "spaced z (mmn_block k @ ys) = spaced 0 ys"
  by (simp add: mmn_block_def spaced_zeros)

lemma spaced_blocks: "spaced z (concat (map mmn_block ks))"
  by (induction ks arbitrary: z) (simp_all add: spaced_block)

lemma spaced_take: "spaced z xs \<Longrightarrow> spaced z (take n xs)"
proof (induction xs arbitrary: z n)
  case Nil
  then show ?case by simp
next
  case (Cons x xs)
  then show ?case by (cases n) (auto split: if_splits)
qed

lemma spaced_first:
  "spaced z xs \<Longrightarrow> j < length xs \<Longrightarrow> xs ! j = PyInt 1 \<Longrightarrow> 3 \<le> z + j"
proof (induction xs arbitrary: z j)
  case Nil
  then show ?case by simp
next
  case (Cons x xs)
  show ?case
  proof (cases j)
    case 0
    then show ?thesis using Cons.prems by simp
  next
    case (Suc j')
    show ?thesis
    proof (cases "x = PyInt 1")
      case True
      then have "spaced 0 xs" using Cons.prems(1) by simp
      then have "3 \<le> 0 + j'" using Cons.IH[of 0 j'] Cons.prems Suc by simp
      then show ?thesis using Suc by simp
    next
      case False
      then have "spaced (Suc z) xs" using Cons.prems(1) by simp
      then have "3 \<le> Suc z + j'" using Cons.IH[of "Suc z" j'] Cons.prems Suc by simp
      then show ?thesis using Suc by simp
    qed
  qed
qed

lemma spaced_apart:
  "spaced z xs \<Longrightarrow> i < j \<Longrightarrow> j < length xs \<Longrightarrow> xs ! i = PyInt 1 \<Longrightarrow> xs ! j = PyInt 1
     \<Longrightarrow> i + 3 < j"
proof (induction xs arbitrary: z i j)
  case Nil
  then show ?case by simp
next
  case (Cons x xs)
  obtain j' where j: "j = Suc j'" using Cons.prems(2) by (cases j) simp_all
  show ?case
  proof (cases i)
    case 0
    then have "x = PyInt 1" using Cons.prems(4) by simp
    then have "spaced 0 xs" using Cons.prems(1) by simp
    then have "3 \<le> 0 + j'" using spaced_first[of 0 xs j'] Cons.prems j by simp
    then show ?thesis using 0 j by simp
  next
    case (Suc i')
    have "\<exists>z'. spaced z' xs" using Cons.prems(1) by (auto split: if_splits)
    then obtain z' where "spaced z' xs" by blast
    then have "i' + 3 < j'" using Cons.IH[of z' i' j'] Cons.prems Suc j by simp
    then show ?thesis using Suc j by simp
  qed
qed

lemma set_mmn_block: "set (mmn_block k) \<subseteq> {PyInt 0, PyInt 1}"
  by (auto simp: mmn_block_def)

lemma set_blocks: "set (concat (map mmn_block ks)) \<subseteq> {PyInt 0, PyInt 1}"
  using set_mmn_block by fastforce

lemma length_blocks: "4 * length ks \<le> length (concat (map mmn_block ks))"
  by (induction ks) (simp_all add: mmn_block_def)

lemma n_partials_12: "mmn_n_partials default_deviant_freq = 10"
  by (simp add: mmn_n_partials_def default_deviant_freq_def)

lemma reps_12: "mmn_reps 100 default_deviant_freq = 10"
  by (simp add: mmn_reps_def n_partials_12)

lemma partials_12:
  "k < 10 \<Longrightarrow> mmn_partials default_deviant_freq ! k = mmn_block k"
  by (simp add: mmn_partials_def n_partials_12 mmn_block_def)

lemma idx_12:
  "length (mmn_idx 100 default_deviant_freq) = 100" "set (mmn_idx 100 default_deviant_freq) = {0..<10}"
  by (simp_all add: mmn_idx_def n_partials_12 reps_12 length_concat sum_list_replicate)

lemma mmn_trials_12:
  assumes "mset idx_shuffled = mset (mmn_idx 100 default_deviant_freq)"
  shows "concat (map (\<lambda>i. mmn_partials default_deviant_freq ! i) idx_shuffled)
         = concat (map mmn_block idx_shuffled)"
    and "length idx_shuffled = 100"
proof -
  have "set idx_shuffled = set (mmn_idx 100 default_deviant_freq)"
    using assms by (rule mset_eq_setD)
  then have "\<forall>i \<in> set idx_shuffled. i < 10" by (simp add: idx_12)
  then have "map (\<lambda>i. mmn_partials default_deviant_freq ! i) idx_shuffled
             = map mmn_block idx_shuffled"
    by (simp add: partials_12)
  then show "concat (map (\<lambda>i. mmn_partials default_deviant_freq ! i) idx_shuffled)
             = concat (map mmn_block idx_shuffled)"
    by (rule arg_cong[where f = concat])
  show "length idx_shuffled = 100"
    using mset_eq_length[OF assms] by (simp add: idx_12)
qed

lemma mmn_sequence_12:
  fixes draws :: "'a pyval list list"
  assumes "mset idx_shuffled = mset (mmn_idx 100 default_deviant_freq)"
  shows "mmn_sequence 100 default_deviant_freq idx_shuffled draws
         = Some (Inr (new_trialsequence [] 1 (conditions_of (Count 2))
                        (int (length (conditions_of (Count 2) :: 'a pyval list)))
                        (take 100 (concat (map mmn_block idx_shuffled)))))"
    and "length (take 100 (concat (map mmn_block idx_shuffled) :: 'a pyval list)) = 100"
proof -
  let ?t = "concat (map mmn_block idx_shuffled) :: 'a pyval list"
  have "4 * length idx_shuffled \<le> length ?t" by (rule length_blocks)
  then have long: "100 \<le> length ?t" using mmn_trials_12(2)[OF assms] by simp
  then show len: "length (take 100 ?t) = 100" by simp
  have sl: "py_slice_to 100 ?t = take 100 ?t"
    using long by (simp add: py_slice_to_def Let_def)
  have ne: "take 100 ?t \<noteq> []"
  proof
    assume "take 100 ?t = []"
    then have "length (take 100 ?t) = 0" by (simp only: list.size)
    then show False using len by simp
  qed
  have f: "default_deviant_freq \<noteq> 0" by (simp add: default_deviant_freq_def)
  show "mmn_sequence 100 default_deviant_freq idx_shuffled draws
         = Some (Inr (new_trialsequence [] 1 (conditions_of (Count 2))
                        (int (length (conditions_of (Count 2) :: 'a pyval list)))
                        (take 100 ?t)))"
    unfolding mmn_sequence_def Let_def mmn_trials_12(1)[OF assms] sl
    using ne f by (simp add: n_partials_12 Trialsequence_init_def Let_def)
qed

lemma mset_concat_replicate: "mset (concat (replicate n xs)) = repeat_mset n (mset xs)"
  by (induction n) simp_all

lemma idx_12_eq: "mmn_idx 100 default_deviant_freq = concat (replicate 10 [0..<10])"
  by (simp add: mmn_idx_def n_partials_12 reps_12)

lemma idx_12_count:
  assumes "mset idx_shuffled = mset (mmn_idx 100 default_deviant_freq)" and "k < 10"
  shows "count_list idx_shuffled k = 10"
proof -
  have "count (mset idx_shuffled) k = count (repeat_mset 10 (mset [0..<10])) k"
    using assms(1) by (simp only: idx_12_eq mset_concat_replicate)
  also have "\<dots> = 10 * count (mset [0..<10]) k" by simp
  also have "count (mset [0..<10]) k = 1"
    using assms(2) by (simp only: mset_upt) simp
  finally show ?thesis by (simp add: count_mset)
qed

lemma length_partials_12: "length (mmn_partials default_deviant_freq) = 10"
  by (simp add: mmn_partials_def n_partials_12)

lemma first_block:
  assumes "xs \<noteq> []" and "hd xs < 10"
  shows "take (4 + hd xs) (take 100 (concat (map mmn_block xs))) = mmn_block (hd xs)"
proof -
  obtain i rest where xs: "xs = i # rest" using assms(1) by (cases xs) auto
  have i: "i < 10" using assms(2) xs by simp
  have l: "length (mmn_block i :: 'a pyval list) = 4 + i" by (simp add: mmn_block_def)
  have "take (4 + i) (take 100 (concat (map mmn_block xs)) :: 'a pyval list)
        = take (4 + i) (mmn_block i @ concat (map mmn_block rest))"
    using i by (simp only: xs list.map concat.simps take_take) (simp add: min_def)
  also have "\<dots> = mmn_block i" using l by simp
  finally show ?thesis using xs by simp
qed

text \<open>
  Claim C9. For \<^verbatim>\<open>mmn_sequence(100, 0.12)\<close>, whatever permutation the shuffle makes of
  \<^verbatim>\<open>idx\<close>: the number of partial blocks is \<open>\<lceil>2 / 0.12 - 7\<rceil> = 10\<close>, there are ten templates
  and template \<open>k\<close> is \<open>3 + k\<close> standards followed by one deviant; the shuffled list has 100
  entries and names every template ten times; the trials of the sequence returned are the
  first 100 entries of the templates chained in the shuffled order, so they begin with the
  whole template drawn first, deviant included; the conditions are 0 and 1 with one
  repetition; and the sequence has exactly 100 trials, each 0 or 1, with more than three
  positions from any deviant to a later one, so that at least three standards lie between two
  deviants.
\<close>

theorem C9_oddball:
  fixes draws :: "'a pyval list list"
  assumes "mset idx_shuffled = mset (mmn_idx 100 default_deviant_freq)"
  shows "default_deviant_freq = 12 / 100
         \<and> mmn_n_partials default_deviant_freq = \<lceil>2 / default_deviant_freq - 7\<rceil>
         \<and> mmn_n_partials default_deviant_freq = 10
         \<and> length (mmn_partials default_deviant_freq :: 'a pyval list list) = 10
         \<and> (\<forall>k < 10. (mmn_partials default_deviant_freq :: 'a pyval list list) ! k
                        = replicate (3 + k) (PyInt 0) @ [PyInt 1])
         \<and> length idx_shuffled = 100
         \<and> (\<forall>k < 10. count_list idx_shuffled k = 10)
         \<and> (\<exists>s. mmn_sequence 100 default_deviant_freq idx_shuffled draws = Some (Inr s)
                \<and> trials s
                    = take 100 (concat (map (\<lambda>i. mmn_partials default_deviant_freq ! i)
                                          idx_shuffled))
                \<and> take (4 + hd idx_shuffled) (trials s)
                    = replicate (3 + hd idx_shuffled) (PyInt 0) @ [PyInt 1]
                \<and> conditions s = [PyInt 0, PyInt 1]
                \<and> n_conds s = 2
                \<and> n_reps s = 1
                \<and> length (trials s) = 100
                \<and> n_trials_ts s = 100
                \<and> set (trials s) \<subseteq> {PyInt 0, PyInt 1}
                \<and> (\<forall>i j. i < j \<and> j < length (trials s)
                            \<and> trials s ! i = PyInt 1 \<and> trials s ! j = PyInt 1
                          \<longrightarrow> i + 3 < j))"
proof -
  let ?t = "take 100 (concat (map mmn_block idx_shuffled)) :: 'a pyval list"
  let ?s = "new_trialsequence [] 1 (conditions_of (Count 2))
              (int (length (conditions_of (Count 2) :: 'a pyval list))) ?t"
  have s: "mmn_sequence 100 default_deviant_freq idx_shuffled draws = Some (Inr ?s)"
    and len: "length ?t = 100"
    using mmn_sequence_12(1)[OF assms, of draws] mmn_sequence_12(2)[OF assms, where 'a = 'a]
    by simp_all
  have tr: "trials ?s = ?t" "n_trials_ts ?s = int (length ?t)"
    "conditions ?s = conditions_of (Count 2)"
    "n_conds ?s = int (length (conditions_of (Count 2) :: 'a pyval list))"
    "n_reps ?s = 1"
    by (simp_all add: new_trialsequence_fresh)
  have cs: "(conditions_of (Count 2) :: 'a pyval list) = [PyInt 0, PyInt 1]"
    by (simp add: conditions_of_def upto.simps)
  have templ: "?t = take 100 (concat (map (\<lambda>i. mmn_partials default_deviant_freq ! i)
                                        idx_shuffled))"
    by (simp only: mmn_trials_12(1)[OF assms])
  have n100: "length idx_shuffled = 100" by (rule mmn_trials_12(2)[OF assms])
  then have ne: "idx_shuffled \<noteq> []" by auto
  have "set idx_shuffled = set (mmn_idx 100 default_deviant_freq)"
    using assms by (rule mset_eq_setD)
  then have "hd idx_shuffled < 10" using ne idx_12(2) hd_in_set[OF ne] by auto
  then have fb: "take (4 + hd idx_shuffled) ?t
                 = replicate (3 + hd idx_shuffled) (PyInt 0) @ [PyInt 1]"
    using first_block[OF ne] by (simp add: mmn_block_def)
  have sub: "set ?t \<subseteq> {PyInt 0, PyInt 1}"
    using set_blocks[of idx_shuffled] set_take_subset[of 100 "concat (map mmn_block idx_shuffled)"]
    by blast
  have sp: "spaced 3 ?t" by (rule spaced_take) (rule spaced_blocks)
  have apart: "\<forall>i j. i < j \<and> j < length ?t \<and> ?t ! i = PyInt 1 \<and> ?t ! j = PyInt 1
                 \<longrightarrow> i + 3 < j"
    using spaced_apart[OF sp] by blast
  have ex: "\<exists>s. mmn_sequence 100 default_deviant_freq idx_shuffled draws = Some (Inr s)
                \<and> trials s
                    = take 100 (concat (map (\<lambda>i. mmn_partials default_deviant_freq ! i)
                                          idx_shuffled))
                \<and> take (4 + hd idx_shuffled) (trials s)
                    = replicate (3 + hd idx_shuffled) (PyInt 0) @ [PyInt 1]
                \<and> conditions s = [PyInt 0, PyInt 1]
                \<and> n_conds s = 2
                \<and> n_reps s = 1
                \<and> length (trials s) = 100
                \<and> n_trials_ts s = 100
                \<and> set (trials s) \<subseteq> {PyInt 0, PyInt 1}
                \<and> (\<forall>i j. i < j \<and> j < length (trials s)
                            \<and> trials s ! i = PyInt 1 \<and> trials s ! j = PyInt 1
                          \<longrightarrow> i + 3 < j)"
  proof (intro exI[of _ ?s] conjI)
    show "mmn_sequence 100 default_deviant_freq idx_shuffled draws = Some (Inr ?s)" by (rule s)
    show "trials ?s = take 100 (concat (map (\<lambda>i. mmn_partials default_deviant_freq ! i)
                                          idx_shuffled))"
      unfolding tr by (rule templ)
    show "take (4 + hd idx_shuffled) (trials ?s)
          = replicate (3 + hd idx_shuffled) (PyInt 0) @ [PyInt 1]"
      unfolding tr by (rule fb)
    show "conditions ?s = [PyInt 0, PyInt 1]" unfolding tr by (rule cs)
    show "n_conds ?s = 2" unfolding tr(4) by (simp add: cs)
    show "n_reps ?s = 1" by (rule tr)
    show "length (trials ?s) = 100" unfolding tr by (rule len)
    show "n_trials_ts ?s = 100" unfolding tr using len by simp
    show "set (trials ?s) \<subseteq> {PyInt 0, PyInt 1}" unfolding tr by (rule sub)
    show "\<forall>i j. i < j \<and> j < length (trials ?s)
                  \<and> trials ?s ! i = PyInt 1 \<and> trials ?s ! j = PyInt 1 \<longrightarrow> i + 3 < j"
      unfolding tr by (rule apart)
  qed
  have p: "\<forall>k < 10. (mmn_partials default_deviant_freq :: 'a pyval list list) ! k
                      = replicate (3 + k) (PyInt 0) @ [PyInt 1]"
    by (simp add: partials_12 mmn_block_def)
  have c: "\<forall>k < 10. count_list idx_shuffled k = 10"
    using idx_12_count[OF assms] by blast
  have f: "default_deviant_freq = 12 / 100"
    "mmn_n_partials default_deviant_freq = \<lceil>2 / default_deviant_freq - 7\<rceil>"
    by (simp_all add: mmn_n_partials_def default_deviant_freq_def)
  show ?thesis
    using f n_partials_12 length_partials_12[where 'a = 'a] p n100 c ex by blast
qed

theorem C9_oddball_witness:
  "mmn_n_partials default_deviant_freq = 10
   \<and> length (mmn_idx 100 default_deviant_freq) = 100
   \<and> mmn_idx 100 default_deviant_freq = concat (replicate 10 [0..<10])
   \<and> hd (mmn_idx 100 default_deviant_freq) = 0
   \<and> count_list (mmn_idx 100 default_deviant_freq) 7 = 10
   \<and> (mmn_partials default_deviant_freq :: unit pyval list list) ! 0
       = [PyInt 0, PyInt 0, PyInt 0, PyInt 1]
   \<and> mmn_sequence 100 default_deviant_freq (mmn_idx 100 default_deviant_freq) []
       = Some (Inr mmn_example)
   \<and> take 4 (trials mmn_example) = [PyInt 0, PyInt 0, PyInt 0, PyInt 1]
   \<and> conditions mmn_example = [PyInt 0, PyInt 1]
   \<and> length (trials mmn_example) = 100
   \<and> n_trials_ts mmn_example = 100"
proof -
  have h: "mset (mmn_idx 100 default_deviant_freq) = mset (mmn_idx 100 default_deviant_freq)"
    by (rule refl)
  have hd0: "hd (mmn_idx 100 default_deviant_freq) = 0"
    by (simp add: idx_12_eq eval_nat_numeral upt_conv_Cons)
  from C9_oddball[OF h, where draws = "[]" and 'a = unit]
  obtain s :: "unit trialsequence" where
    s: "mmn_sequence 100 default_deviant_freq (mmn_idx 100 default_deviant_freq) [] = Some (Inr s)"
      "length (trials s) = 100" "n_trials_ts s = 100" "conditions s = [PyInt 0, PyInt 1]"
      "take (4 + hd (mmn_idx 100 default_deviant_freq)) (trials s)
       = replicate (3 + hd (mmn_idx 100 default_deviant_freq)) (PyInt 0) @ [PyInt 1]"
    and n: "mmn_n_partials default_deviant_freq = 10"
    and p: "\<forall>k < 10. (mmn_partials default_deviant_freq :: unit pyval list list) ! k
                      = replicate (3 + k) (PyInt 0) @ [PyInt 1]"
    and c: "\<forall>k < 10. count_list (mmn_idx 100 default_deviant_freq) k = 10"
    by blast
  have e: "mmn_example = s" using s(1) by (simp add: mmn_example_def)
  have p0: "(mmn_partials default_deviant_freq :: unit pyval list list) ! 0
        = [PyInt 0, PyInt 0, PyInt 0, PyInt 1]"
    using p by (simp add: eval_nat_numeral)
  have t4: "take 4 (trials s) = [PyInt 0, PyInt 0, PyInt 0, PyInt 1]"
    using s(5) unfolding hd0 by (simp add: eval_nat_numeral)
  have c7: "count_list (mmn_idx 100 default_deviant_freq) 7 = 10" using c by simp
  show ?thesis using s(1-4) e n idx_12(1) idx_12_eq hd0 c7 p0 t4 by simp
qed

text \<open>
  What claim C2 says does hold for an integer \<^verbatim>\<open>conditions\<close> argument on an empty list of
  trials, whenever the constructor returns: the trials are \<^verbatim>\<open>n_reps\<close> permutations of the
  indices.
\<close>

lemma repetitions_mset:
  assumes "repetitions rep k p t ds = Some (Inr (p', t'))"
    and "\<forall>d \<in> set ds. mset d = M"
  shows "mset t' = mset t + repeat_mset k M"
  using assms
proof (induction rep k p t ds rule: repetitions.induct)
  case (1 rep permute trials' draws)
  then show ?case by simp
next
  case (2 rep k permute trials')
  then show ?case by simp
next
  case (3 rep k permute trials' d ds)
  have dM: "mset d = M" using "3.prems"(2) by simp
  have dsM: "\<forall>x \<in> set ds. mset x = M" using "3.prems"(2) by simp
  show ?case
  proof (cases "rep = 0")
    case True
    then have call: "repetitions (Suc rep) k d (trials' @ d) ds = Some (Inr (p', t'))"
      using "3.prems"(1) by simp
    from "3.IH"(1)[OF True call dsM] show ?thesis using dM by simp
  next
    case False
    then obtain p1 ds1 where r: "reshuffle trials' d ds = Some (Inr (p1, ds1))"
      and call: "repetitions (Suc rep) k p1 (trials' @ p1) ds1 = Some (Inr (p', t'))"
      using "3.prems"(1) by (auto split: option.splits sum.splits)
    note f = reshuffle_Inr[OF r]
    have p1M: "mset p1 = M" using f dM dsM by auto
    have ds1M: "\<forall>x \<in> set ds1. mset x = M" using f dsM by auto
    from "3.IH"(2)[OF False r _ _ call ds1M] show ?thesis using p1M by simp
  qed
qed

lemma count_range:
  assumes "0 \<le> i" "i < c"
  shows "count (mset (conditions_of (Count c) :: 'a pyval list)) (PyInt i) = 1"
proof -
  have d: "distinct (map PyInt [0..c - 1] :: 'a pyval list)"
    by (simp add: distinct_map inj_on_def)
  have i: "(PyInt i :: 'a pyval) \<in> set (map PyInt [0..c - 1])" using assms by simp
  have "count (mset (map PyInt [0..c - 1])) (PyInt i :: 'a pyval)
        = (if PyInt i \<in> set (map PyInt [0..c - 1] :: 'a pyval list) then 1 else 0)"
    using d distinct_count_atmost_1[of "map PyInt [0..c - 1] :: 'a pyval list"] by blast
  then have "count (mset (map PyInt [0..c - 1])) (PyInt i :: 'a pyval) = 1"
    using i by (simp only: if_True)
  then show ?thesis by (simp only: conditions_of_def conditions_arg.case)
qed

lemma generated_counts:
  fixes s :: "'a trialsequence"
  assumes "Trialsequence_init (Count c) n_reps' [] name' draws = Some (Inr s)"
    and "\<forall>d \<in> set draws. mset d = mset (conditions_of (Count c))"
    and "1 \<le> n_reps'"
  shows "n_trials_ts s = n_conds s * n_reps s"
    and "0 \<le> i \<Longrightarrow> i < n_conds s \<Longrightarrow> count_list (trials s) (PyInt i) = nat (n_reps s)"
proof -
  let ?n = "length (conditions_of (Count c) :: 'a pyval list)"
  obtain cs where gen: "repetitions 0 (nat n_reps') (conditions_of (Count c)) [] draws
                        = Some (Inr (cs, trials s))"
    using Trialsequence_init_generated(1)[OF assms(1)] by blast
  have r: "n_reps s = n_reps'" and n: "n_conds s = int ?n"
    using Trialsequence_init_generated(2,3)[OF assms(1)] by simp_all
  have len: "\<forall>d \<in> set draws. length d = ?n"
    using assms(2) by (metis mset_eq_length)
  have "length (trials s) = (0 + nat n_reps') * ?n"
    using repetitions_blocks[OF gen len] by simp
  then show "n_trials_ts s = n_conds s * n_reps s"
    using Trialsequence_init_fresh(3)[OF assms(1)] r n assms(3) by simp
  have c: "int ?n = max 0 c" by (simp add: conditions_of_def)
  have m: "mset (trials s) = repeat_mset (nat n_reps') (mset (conditions_of (Count c)))"
    using repetitions_mset[OF gen assms(2)] by simp
  assume "0 \<le> i" "i < n_conds s"
  then have "i < c" using n c by simp
  then have "count (mset (trials s)) (PyInt i) = nat n_reps'"
    using m count_range[OF \<open>0 \<le> i\<close>, of c, where 'a = 'a] by simp
  then show "count_list (trials s) (PyInt i) = nat (n_reps s)"
    using r by (simp add: count_mset)
qed

text \<open>
  With a single condition and two or more repetitions the constructor never returns: every
  shuffle gives the same list, which starts with the entry the first block ends with, so
  however many draws are supplied the loop asks for one more.
\<close>

lemma reshuffle_stuck:
  "\<forall>d \<in> set ds. d = [x] \<Longrightarrow> t \<noteq> [] \<Longrightarrow> last t = x \<Longrightarrow> reshuffle t [x] ds = None"
  by (induction ds) simp_all

lemma single_condition_never_returns:
  assumes "\<forall>d \<in> set draws. mset d = mset (conditions_of (Count 1))"
    and "2 \<le> n_reps'"
  shows "Trialsequence_init (Count 1) n_reps' [] name' draws = None"
proof -
  have c: "conditions_of (Count 1) = [PyInt 0]" by (simp add: conditions_of_def)
  have all: "\<forall>d \<in> set draws. d = [PyInt 0]" using assms(1) unfolding c by simp
  have "2 \<le> nat n_reps'" using assms(2) by simp
  then obtain m where "nat n_reps' = 2 + m" using le_Suc_ex by blast
  then have k: "nat n_reps' = Suc (Suc m)" by simp
  have "repetitions 0 (Suc (Suc m)) [PyInt 0] [] draws = None"
  proof (cases draws)
    case Nil
    then show ?thesis by simp
  next
    case (Cons d ds)
    then have d: "d = [PyInt 0]" and ds: "\<forall>x \<in> set ds. x = [PyInt 0]" using all by simp_all
    show ?thesis
    proof (cases ds)
      case Nil
      then show ?thesis using Cons by simp
    next
      case inner: (Cons e es)
      then have e: "e = [PyInt 0]" and es: "\<forall>x \<in> set es. x = [PyInt 0]" using ds by simp_all
      have "reshuffle [PyInt 0] [PyInt 0] es = None"
        using reshuffle_stuck[OF es, of "[PyInt 0]"] by simp
      then show ?thesis using Cons inner d e by simp
    qed
  qed
  then show ?thesis
    by (simp add: Trialsequence_init_def create_simple_sequence_def Let_def c k)
qed

text \<open>
  The parts of claim C8 that hold: after any number of pulls on a sequence the constructor
  returned, \<^verbatim>\<open>get_future_trial(n)\<close> leaves the object as it is, and returns the entry of
  \<^verbatim>\<open>trials\<close> at position \<open>this_n + n\<close> when that position lies in \<open>[0, n_trials)\<close> and \<^verbatim>\<open>None\<close>
  otherwise.
\<close>

lemma lookahead:
  assumes "Trialsequence_init conditions' n_reps' trials' name' draws = Some (Inr s0)"
  shows "snd (get_future_trial n (advance k s0)) = advance k s0"
    and "fst (get_future_trial n (advance k s0))
         = (if 0 \<le> int k - 1 + n \<and> int k - 1 + n < n_trials_ts s0
            then Inr (Some (trials s0 ! nat (int k - 1 + n))) else Inr None)"
proof -
  note fresh = Trialsequence_init_fresh[OF assms]
  show "snd (get_future_trial n (advance k s0)) = advance k s0"
    by (rule get_future_trial_state)
  have "n_remaining (advance k s0)
        = int (length (trials (advance k s0))) - this_n (advance k s0) - 1"
    using fresh by (simp add: advance_effect)
  from get_future_trial_value[OF this, of n]
  show "fst (get_future_trial n (advance k s0))
         = (if 0 \<le> int k - 1 + n \<and> int k - 1 + n < n_trials_ts s0
            then Inr (Some (trials s0 ! nat (int k - 1 + n))) else Inr None)"
    using fresh by (simp add: advance_effect)
qed

end
